theory Spec2Isabelle
  imports Complex_Main "HOL-Library.Char_ord" "HOL-Library.List_Lexorder" "HOL-Library.Multiset"
begin

section \<open>Python values\<close>

text \<open>
  The source is \<^verbatim>\<open>src/sigtypst2022.py\<close>. Sound symbols, language names and cognate
  identifiers are Python strings, modelled as \<^typ>\<open>string\<close> (a string holds the UTF-8
  bytes of the Python text, so that the order on strings is the one \<^verbatim>\<open>sorted\<close> uses).
  A raised exception is the left summand of the result.
\<close>

datatype error = IndexError | KeyError | OverflowError

text \<open>\<^verbatim>\<open>xs[i]\<close> for a Python integer \<open>i\<close>: negative indices count from the end.\<close>

definition py_index :: "'a list \<Rightarrow> int \<Rightarrow> error + 'a" where
  "py_index xs i =
     (if 0 \<le> i \<and> i < int (length xs) then Inr (xs ! nat i)
      else if i < 0 \<and> - i \<le> int (length xs) then Inr (xs ! nat (int (length xs) + i))
      else Inl IndexError)"

text \<open>\<^verbatim>\<open>sep.join(xs)\<close>.\<close>

fun join :: "string \<Rightarrow> string list \<Rightarrow> string" where
  "join sep [] = ''''"
| "join sep [x] = x"
| "join sep (x # y # ys) = x @ sep @ join sep (y # ys)"

section \<open>The gap-merge transform \<^verbatim>\<open>ungap\<close>\<close>

text \<open>
  \<^verbatim>\<open>pidxs\<close>: the positions of the reference language in \<^verbatim>\<open>languages\<close>.
\<close>

definition pidxs_of :: "string list \<Rightarrow> string \<Rightarrow> nat list" where
  "pidxs_of languages proto = [i \<leftarrow> [0..<length languages]. languages ! i = proto]"

text \<open>
  \<^verbatim>\<open>col = [row[i] for row in alignment]\<close>: a row that is too short raises.
\<close>

fun get_col :: "string list list \<Rightarrow> nat \<Rightarrow> error + string list" where
  "get_col [] i = Inr []"
| "get_col (row # rows) i =
     (if i < length row
      then (case get_col rows i of Inl e \<Rightarrow> Inl e | Inr col \<Rightarrow> Inr (row ! i # col))
      else Inl IndexError)"

text \<open>
  \<^verbatim>\<open>col_rest = [site for j, site in enumerate(col) if j not in pidxs]\<close> and the test
  \<^verbatim>\<open>"-" in col_rest and len(set(col_rest)) == 1\<close>.
\<close>

definition col_rest_of :: "nat list \<Rightarrow> string list \<Rightarrow> string list" where
  "col_rest_of pidxs col = map snd (filter (\<lambda>(j, site). j \<notin> set pidxs) (enumerate 0 col))"

definition is_merge :: "string list \<Rightarrow> bool" where
  "is_merge col_rest \<longleftrightarrow> ''-'' \<in> set col_rest \<and> card (set col_rest) = 1"

text \<open>
  The loop \<^verbatim>\<open>for i in range(len(alignment[0]))\<close> that collects \<^verbatim>\<open>merges\<close>, over the
  column indices still to visit.
\<close>

fun find_merges :: "string list list \<Rightarrow> nat list \<Rightarrow> nat list \<Rightarrow> error + nat list" where
  "find_merges alignment pidxs [] = Inr []"
| "find_merges alignment pidxs (i # rest) =
     (case get_col alignment i of
        Inl e \<Rightarrow> Inl e
      | Inr col \<Rightarrow>
          (case find_merges alignment pidxs rest of
             Inl e \<Rightarrow> Inl e
           | Inr ms \<Rightarrow> Inr (if is_merge (col_rest_of pidxs col) then i # ms else ms)))"

text \<open>
  One pass of the inner loop \<^verbatim>\<open>for j, cell in enumerate(row)\<close>. The loop state is
  \<^verbatim>\<open>(new_alm, mergeit, started)\<close>; \<^verbatim>\<open>new_alm[-1]\<close> raises on an empty list.
\<close>

fun merge_cell ::
  "nat list \<Rightarrow> string list \<times> bool \<times> bool \<Rightarrow> nat \<times> string \<Rightarrow> error + string list \<times> bool \<times> bool"
where
  "merge_cell merges (new_alm, mergeit, started) (j, cell) =
     (if j \<in> set merges \<or> mergeit then
        (if \<not> started then
           (if cell = ''-'' then Inr (new_alm, False, started)
            else if new_alm = [] then Inl IndexError
            else if last new_alm = '''' then
              Inr (butlast new_alm @ [last new_alm @ cell], False, started)
            else Inr (butlast new_alm @ [last new_alm @ ''.'' @ cell], False, started))
         else Inr (new_alm @ [if cell = ''-'' then '''' else cell], True, started))
      else Inr (new_alm @ [cell], mergeit, False))"

fun row_loop ::
  "nat list \<Rightarrow> string list \<times> bool \<times> bool \<Rightarrow> (nat \<times> string) list \<Rightarrow> error + string list \<times> bool \<times> bool"
where
  "row_loop merges st [] = Inr st"
| "row_loop merges st (jc # rest) =
     (case merge_cell merges st jc of
        Inl e \<Rightarrow> Inl e
      | Inr st' \<Rightarrow> row_loop merges st' rest)"

text \<open>
  The closing loop \<^verbatim>\<open>if not cell: new_alm[k] = "-"\<close>.
\<close>

definition fill_gaps :: "string list \<Rightarrow> string list" where
  "fill_gaps new_alm = map (\<lambda>cell. if cell = '''' then ''-'' else cell) new_alm"

definition ungap_row :: "nat list \<Rightarrow> string list \<Rightarrow> error + string list" where
  "ungap_row merges row =
     (case row_loop merges ([], False, True) (enumerate 0 row) of
        Inl e \<Rightarrow> Inl e
      | Inr (new_alm, _, _) \<Rightarrow> Inr (fill_gaps new_alm))"

fun ungap_rows :: "nat list \<Rightarrow> string list list \<Rightarrow> error + string list list" where
  "ungap_rows merges [] = Inr []"
| "ungap_rows merges (row # rows) =
     (case ungap_row merges row of
        Inl e \<Rightarrow> Inl e
      | Inr new_alm \<Rightarrow>
          (case ungap_rows merges rows of
             Inl e \<Rightarrow> Inl e
           | Inr new_alms \<Rightarrow> Inr (new_alm # new_alms)))"

text \<open>
  \<^verbatim>\<open>ungap(alignment, languages, proto)\<close>; \<^verbatim>\<open>alignment[0]\<close> raises on an empty
  alignment.
\<close>

definition ungap_merges :: "string list list \<Rightarrow> string list \<Rightarrow> string \<Rightarrow> error + nat list" where
  "ungap_merges alignment languages proto =
     (case alignment of
        [] \<Rightarrow> Inl IndexError
      | row0 # _ \<Rightarrow> find_merges alignment (pidxs_of languages proto) [0..<length row0])"

definition ungap :: "string list list \<Rightarrow> string list \<Rightarrow> string \<Rightarrow> error + string list list" where
  "ungap alignment languages proto =
     (case ungap_merges alignment languages proto of
        Inl e \<Rightarrow> Inl e
      | Inr merges \<Rightarrow> if merges \<noteq> [] then ungap_rows merges alignment else Inr alignment)"

text \<open>
  Notions used to state properties of \<^verbatim>\<open>ungap\<close>: column \<open>i\<close> is a merge target
  (\<open>marked\<close>), every row reaches the width of the first row (\<open>rows_ok\<close>, the condition
  under which the column loop does not raise), and the alignment is a matrix (non-empty,
  all rows of one length).
\<close>

definition marked :: "string list list \<Rightarrow> nat list \<Rightarrow> nat \<Rightarrow> bool" where
  "marked alignment pidxs i = is_merge (col_rest_of pidxs (map (\<lambda>row. row ! i) alignment))"

definition rows_ok :: "string list list \<Rightarrow> bool" where
  "rows_ok alignment \<longleftrightarrow>
     alignment \<noteq> [] \<and> (\<forall>row\<in>set alignment. length (hd alignment) \<le> length row)"

definition is_matrix :: "string list list \<Rightarrow> bool" where
  "is_matrix alignment \<longleftrightarrow>
     alignment \<noteq> [] \<and> (\<forall>row\<in>set alignment. length row = length (hd alignment))"

definition no_empty_cell :: "string list list \<Rightarrow> bool" where
  "no_empty_cell alignment \<longleftrightarrow> (\<forall>row\<in>set alignment. [] \<notin> set row)"

section \<open>The split builder \<^verbatim>\<open>split_training_test_data\<close>\<close>

text \<open>
  A Python \<^verbatim>\<open>dict\<close> keeps its keys in insertion order; it is modelled as an association
  list. \<^verbatim>\<open>d[k] = v\<close> replaces the value of an existing key in place and appends a new
  key at the end; \<^verbatim>\<open>d[k]\<close> raises \<^verbatim>\<open>KeyError\<close> on a missing key. A cognate item
  maps language names to token lists, a collection maps cognate ids to items.
\<close>

type_synonym item = "(string \<times> string list) list"
type_synonym dataset = "(string \<times> item) list"

fun setitem :: "('k \<times> 'v) list \<Rightarrow> 'k \<Rightarrow> 'v \<Rightarrow> ('k \<times> 'v) list" where
  "setitem [] k v = [(k, v)]"
| "setitem (kv # d) k v = (if fst kv = k then (k, v) # d else kv # setitem d k v)"

definition getitem :: "('k \<times> 'v) list \<Rightarrow> 'k \<Rightarrow> error + 'v" where
  "getitem d k = (case map_of d k of None \<Rightarrow> Inl KeyError | Some v \<Rightarrow> Inr v)"

text \<open>\<^verbatim>\<open>d[k1][k2]\<close> and, for a \<^verbatim>\<open>defaultdict(dict)\<close>, \<^verbatim>\<open>d[k1][k2] = v\<close>.\<close>

definition getitem2 :: "('k \<times> ('j \<times> 'v) list) list \<Rightarrow> 'k \<Rightarrow> 'j \<Rightarrow> error + 'v" where
  "getitem2 d k1 k2 = (case getitem d k1 of Inl e \<Rightarrow> Inl e | Inr inner \<Rightarrow> getitem inner k2)"

definition nested_set ::
  "('k \<times> ('j \<times> 'v) list) list \<Rightarrow> 'k \<Rightarrow> 'j \<Rightarrow> 'v \<Rightarrow> ('k \<times> ('j \<times> 'v) list) list" where
  "nested_set d k1 k2 v =
     setitem d k1 (setitem (case map_of d k1 of None \<Rightarrow> [] | Some inner \<Rightarrow> inner) k2 v)"

text \<open>\<^verbatim>\<open>str(n)\<close> for a natural number: its decimal digits.\<close>

fun str_nat :: "nat \<Rightarrow> string" where
  "str_nat n =
     (if n < 10 then [char_of (48 + n)] else str_nat (n div 10) @ [char_of (48 + n mod 10)])"

declare str_nat.simps [simp del]

text \<open>
  The sort key of line 187: the number of entries of the item whose joined tokens are
  neither empty nor the placeholder.
\<close>

definition real_value :: "string list \<Rightarrow> bool" where
  "real_value b \<longleftrightarrow> join '' '' b \<notin> set ['''', ''?'']"

definition rank_key :: "string \<times> item \<Rightarrow> int" where
  "rank_key x = sum_list (map (\<lambda>(a, b). if real_value b then 1 else 0) (snd x))"

text \<open>
  Python floats are IEEE 754 binary64 numbers. A finite float is modelled as the rational
  number it denotes, and every operation on floats rounds its exact result to the nearest
  float, ties to the even significand: for \<open>2 ^ e \<le> |x| < 2 ^ (e + 1)\<close> the floats are the
  multiples of \<open>2 ^ (e - 52)\<close>, and below \<open>2 ^ (- 1022)\<close> the multiples of \<open>2 ^ (- 1074)\<close>.
  A result that rounds beyond the largest float is an infinity. The only use of floats
  below is \<^verbatim>\<open>int(len(data) * ratio + 0.5)\<close>, where the conversion of a too large
  \<^verbatim>\<open>len(data)\<close> and \<^verbatim>\<open>int\<close> of an infinity both raise \<^verbatim>\<open>OverflowError\<close>, so an infinite
  result is that error.
\<close>

function bit_length :: "int \<Rightarrow> int" where
  "bit_length n = (if n \<le> 0 then 0 else bit_length (n div 2) + 1)"
  by pat_completeness auto

termination
  by (relation "measure nat") auto

declare bit_length.simps [simp del]

definition pow2 :: "int \<Rightarrow> rat" where
  "pow2 e = (if 0 \<le> e then of_int (2 ^ nat e) else 1 / of_int (2 ^ nat (- e)))"

text \<open>For \<open>x > 0\<close>, the exponent \<open>e\<close> with \<open>2 ^ e \<le> x < 2 ^ (e + 1)\<close>.\<close>

definition floor_log2 :: "rat \<Rightarrow> int" where
  "floor_log2 x =
     (if 1 \<le> x then bit_length \<lfloor>x\<rfloor> - 1 else - bit_length (\<lceil>1 / x\<rceil> - 1))"

definition round_half_even :: "rat \<Rightarrow> int" where
  "round_half_even x =
     (if x - of_int \<lfloor>x\<rfloor> < 1 / 2 then \<lfloor>x\<rfloor>
      else if 1 / 2 < x - of_int \<lfloor>x\<rfloor> then \<lfloor>x\<rfloor> + 1
      else if even \<lfloor>x\<rfloor> then \<lfloor>x\<rfloor> else \<lfloor>x\<rfloor> + 1)"

definition quantum :: "rat \<Rightarrow> rat" where
  "quantum x = pow2 (max (floor_log2 \<bar>x\<bar>) (- 1022) - 52)"

definition round_double :: "rat \<Rightarrow> error + rat" where
  "round_double x =
     (if x = 0 then Inr 0
      else if pow2 1024 \<le> \<bar>quantum x * of_int (round_half_even (x / quantum x))\<bar>
      then Inl OverflowError
      else Inr (quantum x * of_int (round_half_even (x / quantum x))))"

text \<open>A rational number is a float when rounding leaves it as it is.\<close>

definition is_double :: "rat \<Rightarrow> bool" where
  "is_double x \<longleftrightarrow> round_double x = Inr x"

text \<open>\<^verbatim>\<open>int(x)\<close> for a finite float truncates towards zero.\<close>

definition py_int :: "rat \<Rightarrow> int" where
  "py_int x = (if 0 \<le> x then \<lfloor>x\<rfloor> else \<lceil>x\<rceil>)"

text \<open>
  Line 184, \<^verbatim>\<open>split_off = int(len(data) * ratio + 0.5)\<close>, for a float \<^verbatim>\<open>ratio\<close>: the
  length is converted to a float, the product and the sum are rounded.
\<close>

definition split_off_of :: "nat \<Rightarrow> rat \<Rightarrow> error + int" where
  "split_off_of n ratio =
     (case round_double (of_nat n) of
        Inl e \<Rightarrow> Inl e
      | Inr len_f \<Rightarrow>
          (case round_double (len_f * ratio) of
             Inl e \<Rightarrow> Inl e
           | Inr product_f \<Rightarrow>
               (case round_double (product_f + 1 / 2) of
                  Inl e \<Rightarrow> Inl e
                | Inr sum_f \<Rightarrow> Inr (py_int sum_f))))"

text \<open>The slices \<^verbatim>\<open>xs[:k]\<close> and \<^verbatim>\<open>xs[k:]\<close> for a Python integer \<open>k\<close>.\<close>

definition slice_to :: "'a list \<Rightarrow> int \<Rightarrow> 'a list" where
  "slice_to xs k = (if 0 \<le> k then take (nat k) xs else take (length xs - nat (- k)) xs)"

definition slice_from :: "'a list \<Rightarrow> int \<Rightarrow> 'a list" where
  "slice_from xs k = (if 0 \<le> k then drop (nat k) xs else drop (length xs - nat (- k)) xs)"

text \<open>
  \<^verbatim>\<open>sorted(data.items(), key=..., reverse=True)\<close>: Python's sort is stable, also with
  \<^verbatim>\<open>reverse=True\<close> (items with equal keys keep their original order), so it is the
  stable sort by the negated key.
\<close>

definition ranked :: "dataset \<Rightarrow> dataset" where
  "ranked data = sort_key (\<lambda>x. - rank_key x) data"

definition cognates_of :: "dataset \<Rightarrow> string list" where
  "cognates_of data = map fst (ranked data)"

text \<open>The dict comprehension \<^verbatim>\<open>{c: data[c] for c in cs}\<close>, built entry by entry.\<close>

fun select :: "dataset \<Rightarrow> dataset \<Rightarrow> string list \<Rightarrow> error + dataset" where
  "select data acc [] = Inr acc"
| "select data acc (c # cs) =
     (case getitem data c of
        Inl e \<Rightarrow> Inl e
      | Inr v \<Rightarrow> select data (setitem acc c v) cs)"

definition split_pools :: "dataset \<Rightarrow> rat \<Rightarrow> error + dataset \<times> dataset" where
  "split_pools data ratio =
     (case split_off_of (length data) ratio of
        Inl e \<Rightarrow> Inl e
      | Inr split_off \<Rightarrow>
          (case select data [] (slice_to (cognates_of data) split_off) of
             Inl e \<Rightarrow> Inl e
           | Inr test_pool \<Rightarrow>
               (case select data [] (slice_from (cognates_of data) split_off) of
                  Inl e \<Rightarrow> Inl e
                | Inr training \<Rightarrow> Inr (test_pool, training))))"

text \<open>
  The innermost loop \<^verbatim>\<open>for j, languageB in enumerate(languages)\<close> (lines 203 to 208);
  the state is the pair of \<^verbatim>\<open>test\<close> and \<^verbatim>\<open>solutions\<close>.
\<close>

fun emit_fields ::
  "dataset \<Rightarrow> string \<Rightarrow> string \<Rightarrow> string \<Rightarrow> dataset \<times> dataset \<Rightarrow> string list \<Rightarrow>
   error + dataset \<times> dataset"
where
  "emit_fields test_pool key new_key language (test, solutions) [] = Inr (test, solutions)"
| "emit_fields test_pool key new_key language (test, solutions) (languageB # rest) =
     (if language \<noteq> languageB then
        (case getitem2 test_pool key languageB of
           Inl e \<Rightarrow> Inl e
         | Inr v \<Rightarrow>
             emit_fields test_pool key new_key language
               (nested_set test new_key languageB v, solutions) rest)
      else
        (case getitem2 test_pool key language of
           Inl e \<Rightarrow> Inl e
         | Inr v \<Rightarrow>
             emit_fields test_pool key new_key language
               (nested_set test new_key language [''?''],
                nested_set solutions new_key language v) rest))"

text \<open>The loop \<^verbatim>\<open>for key, values in test_.items()\<close> with the test of line 201.\<close>

fun emit_items ::
  "dataset \<Rightarrow> string list \<Rightarrow> nat \<Rightarrow> string \<Rightarrow> dataset \<times> dataset \<Rightarrow> dataset \<Rightarrow>
   error + dataset \<times> dataset"
where
  "emit_items test_pool languages i language st [] = Inr st"
| "emit_items test_pool languages i language st (kv # rest) =
     (case getitem2 test_pool (fst kv) language of
        Inl e \<Rightarrow> Inl e
      | Inr v \<Rightarrow>
          if join '' '' v \<noteq> '''' then
            (case emit_fields test_pool (fst kv) (fst kv @ ''-'' @ str_nat (i + 1)) language st
                    languages of
               Inl e \<Rightarrow> Inl e
             | Inr st' \<Rightarrow> emit_items test_pool languages i language st' rest)
          else emit_items test_pool languages i language st rest)"

text \<open>The outer loop \<^verbatim>\<open>for i, language in enumerate(languages)\<close>.\<close>

fun emit_languages ::
  "dataset \<Rightarrow> string list \<Rightarrow> dataset \<times> dataset \<Rightarrow> (nat \<times> string) list \<Rightarrow>
   error + dataset \<times> dataset"
where
  "emit_languages test_pool languages st [] = Inr st"
| "emit_languages test_pool languages st (il # rest) =
     (case emit_items test_pool languages (fst il) (snd il) st test_pool of
        Inl e \<Rightarrow> Inl e
      | Inr st' \<Rightarrow> emit_languages test_pool languages st' rest)"

text \<open>The result is the triple \<^verbatim>\<open>(training, test, solutions)\<close>.\<close>

definition split_training_test_data ::
  "dataset \<Rightarrow> string list \<Rightarrow> rat \<Rightarrow> error + dataset \<times> dataset \<times> dataset" where
  "split_training_test_data data languages ratio =
     (case split_pools data ratio of
        Inl e \<Rightarrow> Inl e
      | Inr (test_pool, training) \<Rightarrow>
          (case emit_languages test_pool languages ([], []) (enumerate 0 languages) of
             Inl e \<Rightarrow> Inl e
           | Inr (test, solutions) \<Rightarrow> Inr (training, test, solutions)))"

section \<open>The baseline predictor \<^verbatim>\<open>Baseline\<close>\<close>

text \<open>
  Two capabilities are external to the repository and are parameters of the model:
  the alignment function \<^verbatim>\<open>self.func\<close> (\<^verbatim>\<open>transform_alignment\<close> of lingrex behind
  \<^verbatim>\<open>simple_align\<close>), called as \<^verbatim>\<open>func(seqs, languages, all_languages, training=...)\<close> and
  returning one row per alignment column, and the classifier \<^verbatim>\<open>CorPaRClassifier\<close>, whose
  \<^verbatim>\<open>fit(X, y)\<close> is the field \<open>learner\<close> and whose fitted state is its \<^verbatim>\<open>predict\<close> function.
  Neither is assumed to raise.

  The fields \<open>alignments\<close>, \<open>patterns\<close>, \<open>matrices\<close>, \<open>solutions\<close> and \<open>classifiers\<close> are
  dicts that \<^verbatim>\<open>__init__\<close> and \<^verbatim>\<open>fit\<close> create with exactly the keys \<^verbatim>\<open>self.languages\<close>;
  they are functions of the language, and a lookup at another key raises \<^verbatim>\<open>KeyError\<close>.
\<close>

type_synonym align_func =
  "string list list \<Rightarrow> string list \<Rightarrow> string list \<Rightarrow> bool \<Rightarrow> string list list"

type_synonym classifier = "int list list \<Rightarrow> int list"

type_synonym pattern_dict = "(string list \<times> (string \<times> (string \<times> nat) list) list) list"

record baseline =
  languages :: "string list"
  alignments :: "string \<Rightarrow> (string \<times> string list \<times> string list list) list"
  gap :: string
  missing :: string
  func :: align_func
  learner :: "int list list \<Rightarrow> int list \<Rightarrow> classifier"
  patterns :: "string \<Rightarrow> pattern_dict"
  sound2idx :: "(string \<times> int) list"
  idx2sound :: "(int \<times> string) list"
  matrices :: "string \<Rightarrow> int list list"
  solutions :: "string \<Rightarrow> int list"
  classifiers :: "string \<Rightarrow> classifier"

text \<open>
  \<^verbatim>\<open>[l for l in self.languages if l != language]+[language]\<close>, the pattern
  \<^verbatim>\<open>row[:len(self.languages)]+row[len(self.languages)+1:]\<close> of line 369, and
  \<^verbatim>\<open>self.patterns[language][ptn][label] += [(cogid, i)]\<close> on nested defaultdicts.
\<close>

definition target_last :: "string list \<Rightarrow> string \<Rightarrow> string list" where
  "target_last langs language = filter (\<lambda>l. l \<noteq> language) langs @ [language]"

definition row_pattern :: "nat \<Rightarrow> string list \<Rightarrow> string list" where
  "row_pattern n row = take n row @ drop (n + 1) row"

definition add_occurrence ::
  "pattern_dict \<Rightarrow> string list \<Rightarrow> string \<Rightarrow> string \<times> nat \<Rightarrow> pattern_dict" where
  "add_occurrence pats ptn label occ =
     setitem pats ptn
       (setitem (case map_of pats ptn of None \<Rightarrow> [] | Some labels \<Rightarrow> labels) label
          ((case map_of (case map_of pats ptn of None \<Rightarrow> [] | Some labels \<Rightarrow> labels) label of
              None \<Rightarrow> [] | Some occs \<Rightarrow> occs) @ [occ]))"

text \<open>
  The loop \<^verbatim>\<open>for i, row in enumerate(alm_matrix)\<close> of lines 368 to 374; \<open>n\<close> is
  \<^verbatim>\<open>len(self.languages)\<close>, the label is \<^verbatim>\<open>row[len(self.languages)-1]\<close> and the last
  statement adds \<^verbatim>\<open>row[-1]\<close> to \<^verbatim>\<open>sounds\<close>.
\<close>

fun fit_rows ::
  "nat \<Rightarrow> string \<Rightarrow> pattern_dict \<times> string set \<Rightarrow> (nat \<times> string list) list \<Rightarrow>
   error + pattern_dict \<times> string set"
where
  "fit_rows n cogid st [] = Inr st"
| "fit_rows n cogid (pats, sounds) (ir # rest) =
     (case py_index (snd ir) (int n - 1) of
        Inl e \<Rightarrow> Inl e
      | Inr label \<Rightarrow>
          (case py_index (snd ir) (- 1) of
             Inl e \<Rightarrow> Inl e
           | Inr final \<Rightarrow>
               fit_rows n cogid
                 (add_occurrence pats (row_pattern n (snd ir)) label (cogid, fst ir),
                  sounds \<union> set (row_pattern n (snd ir)) \<union> {final}) rest))"

text \<open>The loop \<^verbatim>\<open>for cogid, languages, alms in self.alignments[language]\<close>.\<close>

fun fit_alignments ::
  "baseline \<Rightarrow> string \<Rightarrow> pattern_dict \<times> string set \<Rightarrow>
   (string \<times> string list \<times> string list list) list \<Rightarrow> error + pattern_dict \<times> string set"
where
  "fit_alignments b language st [] = Inr st"
| "fit_alignments b language st (entry # rest) =
     (case fit_rows (length (languages b)) (fst entry) st
             (enumerate 0
                (func b (snd (snd entry)) (fst (snd entry))
                   (target_last (languages b) language) True)) of
        Inl e \<Rightarrow> Inl e
      | Inr st' \<Rightarrow> fit_alignments b language st' rest)"

text \<open>The loop \<^verbatim>\<open>for language in self.languages\<close> of line 361; \<^verbatim>\<open>sounds\<close> is one set,
  created before the loop.\<close>

fun fit_languages ::
  "baseline \<Rightarrow> (string \<Rightarrow> pattern_dict) \<times> string set \<Rightarrow> string list \<Rightarrow>
   error + (string \<Rightarrow> pattern_dict) \<times> string set"
where
  "fit_languages b st [] = Inr st"
| "fit_languages b (pats, sounds) (language # rest) =
     (case fit_alignments b language (pats language, sounds) (alignments b language) of
        Inl e \<Rightarrow> Inl e
      | Inr st' \<Rightarrow> fit_languages b (pats(language := fst st'), snd st') rest)"

text \<open>
  Lines 375 to 378: \<^verbatim>\<open>dict(zip(sorted(sounds), range(2, len(sounds)+2)))\<close>, the two
  reserved codes, and the inverse dict \<^verbatim>\<open>{v: k for k, v in self.sound2idx.items()}\<close>.
\<close>

definition dict_of :: "('k \<times> 'v) list \<Rightarrow> ('k \<times> 'v) list" where
  "dict_of pairs = foldl (\<lambda>d kv. setitem d (fst kv) (snd kv)) [] pairs"

definition make_sound2idx :: "string set \<Rightarrow> string \<Rightarrow> string \<Rightarrow> (string \<times> int) list" where
  "make_sound2idx sounds gap_symbol missing_symbol =
     setitem
       (setitem (dict_of (zip (sorted_list_of_set sounds) (map int [2..<card sounds + 2])))
          gap_symbol 1)
       missing_symbol 0"

definition make_idx2sound :: "(string \<times> int) list \<Rightarrow> (int \<times> string) list" where
  "make_idx2sound s2i = dict_of (map (\<lambda>kv. (snd kv, fst kv)) s2i)"

text \<open>
  Lines 380 to 390: every occurrence of a pattern and label becomes one encoded row and one
  encoded target; \<^verbatim>\<open>self.sound2idx[s]\<close> raises on an unknown sound.
\<close>

fun encode_pattern :: "(string \<times> int) list \<Rightarrow> string list \<Rightarrow> error + int list" where
  "encode_pattern s2i [] = Inr []"
| "encode_pattern s2i (s # rest) =
     (case getitem s2i s of
        Inl e \<Rightarrow> Inl e
      | Inr c \<Rightarrow>
          (case encode_pattern s2i rest of
             Inl e \<Rightarrow> Inl e
           | Inr cs \<Rightarrow> Inr (c # cs)))"

fun fit_labels ::
  "(string \<times> int) list \<Rightarrow> string list \<Rightarrow> int list list \<times> int list \<Rightarrow>
   (string \<times> (string \<times> nat) list) list \<Rightarrow> error + int list list \<times> int list"
where
  "fit_labels s2i pattern st [] = Inr st"
| "fit_labels s2i pattern (mat, sol) (sv # rest) =
     (case getitem s2i (fst sv) of
        Inl e \<Rightarrow> Inl e
      | Inr target \<Rightarrow>
          (case encode_pattern s2i pattern of
             Inl e \<Rightarrow> Inl e
           | Inr row \<Rightarrow>
               fit_labels s2i pattern
                 (mat @ replicate (length (snd sv)) row,
                  sol @ replicate (length (snd sv)) target) rest))"

fun fit_patterns ::
  "(string \<times> int) list \<Rightarrow> int list list \<times> int list \<Rightarrow> pattern_dict \<Rightarrow>
   error + int list list \<times> int list"
where
  "fit_patterns s2i st [] = Inr st"
| "fit_patterns s2i st (ps # rest) =
     (case fit_labels s2i (fst ps) st (snd ps) of
        Inl e \<Rightarrow> Inl e
      | Inr st' \<Rightarrow> fit_patterns s2i st' rest)"

fun fit_classifiers ::
  "baseline \<Rightarrow> (string \<times> int) list \<Rightarrow> (string \<Rightarrow> pattern_dict) \<Rightarrow>
   (string \<Rightarrow> int list list) \<times> (string \<Rightarrow> int list) \<times> (string \<Rightarrow> classifier) \<Rightarrow>
   string list \<Rightarrow>
   error + (string \<Rightarrow> int list list) \<times> (string \<Rightarrow> int list) \<times> (string \<Rightarrow> classifier)"
where
  "fit_classifiers b s2i pats st [] = Inr st"
| "fit_classifiers b s2i pats (mats, sols, clfs) (language # rest) =
     (case fit_patterns s2i (mats language, sols language) (pats language) of
        Inl e \<Rightarrow> Inl e
      | Inr ms \<Rightarrow>
          fit_classifiers b s2i pats
            (mats(language := fst ms), sols(language := snd ms),
             clfs(language := learner b (fst ms) (snd ms))) rest)"

text \<open>
  \<^verbatim>\<open>Baseline.fit(self, func)\<close>: the fitted object, or the exception raised on the way.
  Line 354 stores the argument in \<^verbatim>\<open>self.func\<close> before anything is aligned.
\<close>

definition fit :: "baseline \<Rightarrow> align_func \<Rightarrow> error + baseline" where
  "fit b f =
     (case fit_languages (b\<lparr>func := f\<rparr>) (\<lambda>language. [], {}) (languages b) of
        Inl e \<Rightarrow> Inl e
      | Inr ps \<Rightarrow>
          (case fit_classifiers b (make_sound2idx (snd ps) (gap b) (missing b)) (fst ps)
                  (\<lambda>language. [], \<lambda>language. [], classifiers b) (languages b) of
             Inl e \<Rightarrow> Inl e
           | Inr st \<Rightarrow>
               Inr (b\<lparr>func := f, patterns := fst ps,
                      sound2idx := make_sound2idx (snd ps) (gap b) (missing b),
                      idx2sound := make_idx2sound (make_sound2idx (snd ps) (gap b) (missing b)),
                      matrices := fst st, solutions := fst (snd st),
                      classifiers := snd (snd st)\<rparr>)))"

text \<open>
  \<^verbatim>\<open>Baseline.predict\<close>: \<^verbatim>\<open>self.sound2idx.get(char, 0)\<close>, \<^verbatim>\<open>self.idx2sound.get(idx, unknown)\<close>
  and the final filter \<^verbatim>\<open>[x for x in out if x != "-"]\<close>.
\<close>

definition encode :: "baseline \<Rightarrow> string \<Rightarrow> int" where
  "encode b char = (case map_of (sound2idx b) char of None \<Rightarrow> 0 | Some c \<Rightarrow> c)"

definition decode :: "baseline \<Rightarrow> string \<Rightarrow> int \<Rightarrow> string" where
  "decode b unknown idx = (case map_of (idx2sound b) idx of None \<Rightarrow> unknown | Some s \<Rightarrow> s)"

definition predict_matrix :: "baseline \<Rightarrow> string list \<Rightarrow> string list list \<Rightarrow> string \<Rightarrow> int list list"
where
  "predict_matrix b langs alms target =
     map (map (encode b)) (func b alms langs (filter (\<lambda>l. l \<noteq> target) (languages b)) False)"

definition predict ::
  "baseline \<Rightarrow> string list \<Rightarrow> string list list \<Rightarrow> string \<Rightarrow> string \<Rightarrow> error + string list" where
  "predict b langs alms target unknown =
     (if target \<in> set (languages b)
      then Inr (filter (\<lambda>x. x \<noteq> ''-'')
                  (map (decode b unknown) (classifiers b target (predict_matrix b langs alms target))))
      else Inl KeyError)"

text \<open>
  The symbols that \<^verbatim>\<open>fit\<close> sees for one language: for every row of every alignment
  matrix of that language, the symbols of the pattern and the last cell. The vocabulary of
  a fitted object is the set of keys of its codec.
\<close>

definition training_rows :: "baseline \<Rightarrow> string \<Rightarrow> string list list" where
  "training_rows b language =
     concat (map (\<lambda>entry. func b (snd (snd entry)) (fst (snd entry))
                             (target_last (languages b) language) True)
               (alignments b language))"

definition row_sounds :: "nat \<Rightarrow> string list \<Rightarrow> string set" where
  "row_sounds n row = set (row_pattern n row) \<union> (if row = [] then {} else {last row})"

definition seen_sounds :: "baseline \<Rightarrow> string \<Rightarrow> string set" where
  "seen_sounds b language =
     (\<Union>row\<in>set (training_rows b language). row_sounds (length (languages b)) row)"

definition all_seen_sounds :: "baseline \<Rightarrow> string set" where
  "all_seen_sounds b = (\<Union>language\<in>set (languages b). seen_sounds b language)"

definition vocabulary :: "baseline \<Rightarrow> string set" where
  "vocabulary b = fst ` set (sound2idx b)"

text \<open>
  The contexts and the labels of a pattern dict under an encoding of the symbols, one copy
  for every recorded occurrence, in the order of the dict.
\<close>

definition pattern_rows :: "(string \<Rightarrow> int) \<Rightarrow> pattern_dict \<Rightarrow> int list list" where
  "pattern_rows enc pats =
     concat (map (\<lambda>ps. concat (map (\<lambda>sv. replicate (length (snd sv)) (map enc (fst ps)))
                                  (snd ps))) pats)"

definition pattern_targets :: "(string \<Rightarrow> int) \<Rightarrow> pattern_dict \<Rightarrow> int list" where
  "pattern_targets enc pats =
     concat (map (\<lambda>ps. concat (map (\<lambda>sv. replicate (length (snd sv)) (enc (fst sv)))
                                  (snd ps))) pats)"

text \<open>
  Stand-ins for the two external capabilities, used in the examples only: an aligner that
  pads the sequences on the right with a gap symbol \<open>g\<close> and fills the columns of absent
  languages with the default missing symbol (the letter O with stroke, two bytes in
  UTF-8), and a classifier that answers every context with the last label it was trained
  on.
\<close>

definition pad_align :: "string \<Rightarrow> align_func" where
  "pad_align g seqs langs all_languages training =
     map (\<lambda>i. map (\<lambda>l. case map_of (zip langs seqs) l of
                          None \<Rightarrow> [CHR 0xC3, CHR 0x98]
                        | Some s \<Rightarrow> if i < length s then s ! i else g)
                 all_languages)
       [0..<foldr max (map length seqs) 0]"

definition last_label_learner :: "int list list \<Rightarrow> int list \<Rightarrow> classifier" where
  "last_label_learner X y = (\<lambda>M. map (\<lambda>row. if y = [] then 0 else last y) M)"

text \<open>
  The object that \<^verbatim>\<open>__init__\<close> leaves behind, for given languages and alignments: nothing
  fitted yet.
\<close>

definition example_baseline ::
  "string list \<Rightarrow> (string \<Rightarrow> (string \<times> string list \<times> string list list) list) \<Rightarrow> string \<Rightarrow>
   baseline" where
  "example_baseline langs alms gap_symbol =
     \<lparr>languages = langs, alignments = alms, gap = gap_symbol, missing = [CHR 0xC3, CHR 0x98],
      func = pad_align gap_symbol, learner = last_label_learner,
      patterns = (\<lambda>language. []), sound2idx = [], idx2sound = [],
      matrices = (\<lambda>language. []), solutions = (\<lambda>language. []),
      classifiers = (\<lambda>language. (\<lambda>M. []))\<rparr>"

text \<open>
  Two languages and one cognate set, \<open>c1\<close> with \<open>A = a\<close> and \<open>B = b\<close>; every entry lists the
  target language last, as \<^verbatim>\<open>__init__\<close> builds it.
\<close>

definition two_languages :: "string \<Rightarrow> (string \<times> string list \<times> string list list) list" where
  "two_languages language =
     (if language = ''A'' then [(''c1'', [''B'', ''A''], [[''b''], [''a'']])]
      else if language = ''B'' then [(''c1'', [''A'', ''B''], [[''a''], [''b'']])]
      else [])"

text \<open>
  Two languages and one cognate set, \<open>c1\<close> with \<open>A = a x\<close> and \<open>B = b\<close>: aligned, the
  second column of \<open>B\<close> is a gap.
\<close>

definition shorter_target :: "string \<Rightarrow> (string \<times> string list \<times> string list list) list" where
  "shorter_target language =
     (if language = ''A'' then [(''c1'', [''B'', ''A''], [[''b''], [''a'', ''x'']])]
      else if language = ''B'' then [(''c1'', [''A'', ''B''], [[''a'', ''x''], [''b'']])]
      else [])"

text \<open>
  Three languages and two cognate sets: \<open>c1\<close> with \<open>A = a\<close> and \<open>B = b\<close>, \<open>c2\<close> with
  \<open>A = a\<close> and \<open>C = c\<close>.
\<close>

definition three_languages :: "string \<Rightarrow> (string \<times> string list \<times> string list list) list" where
  "three_languages language =
     (if language = ''A'' then
        [(''c1'', [''B'', ''A''], [[''b''], [''a'']]), (''c2'', [''C'', ''A''], [[''c''], [''a'']])]
      else if language = ''B'' then [(''c1'', [''A'', ''B''], [[''a''], [''b'']])]
      else if language = ''C'' then [(''c2'', [''A'', ''C''], [[''a''], [''c'']])]
      else [])"

section \<open>Properties\<close>

lemma single_valued_list:
  "g \<in> set cr \<and> card (set cr) = 1 \<longleftrightarrow> cr \<noteq> [] \<and> (\<forall>c\<in>set cr. c = g)"
proof
  assume a: "g \<in> set cr \<and> card (set cr) = 1"
  then have "card (set cr) = 1" by blast
  then obtain x where x: "set cr = {x}"
    by (rule card_1_singletonE)
  with a have "x = g" by simp
  with x have s: "set cr = {g}" by simp
  from a have "cr \<noteq> []" by auto
  with s show "cr \<noteq> [] \<and> (\<forall>c\<in>set cr. c = g)" by simp
next
  assume a: "cr \<noteq> [] \<and> (\<forall>c\<in>set cr. c = g)"
  then have h: "hd cr \<in> set cr" by simp
  from a have al: "\<forall>c\<in>set cr. c = g" by (rule conjunct2)
  from al h have "hd cr = g" by (rule bspec)
  with h have m: "g \<in> set cr" by simp
  from al have "set cr \<subseteq> {g}" by (intro subsetI) simp
  with m have s: "set cr = {g}" by (intro equalityI) simp_all
  then show "g \<in> set cr \<and> card (set cr) = 1" by simp
qed

lemma is_merge_iff: "is_merge cr \<longleftrightarrow> cr \<noteq> [] \<and> (\<forall>c\<in>set cr. c = ''-'')"
  unfolding is_merge_def by (rule single_valued_list)

lemma col_rest_of_nth:
  "col_rest_of p col = map (\<lambda>j. col ! j) (filter (\<lambda>j. j \<notin> set p) [0..<length col])"
proof -
  have "enumerate 0 col = map (\<lambda>j. (j, col ! j)) [0..<length col]"
    by (rule nth_equalityI) (simp_all add: nth_enumerate_eq)
  then show ?thesis
    by (simp add: col_rest_of_def filter_map comp_def)
qed

lemma marked_iff:
  "marked A p c \<longleftrightarrow>
     (\<exists>i<length A. i \<notin> set p) \<and> (\<forall>i<length A. i \<notin> set p \<longrightarrow> A ! i ! c = ''-'')"
proof -
  let ?col = "map (\<lambda>row. row ! c) A"
  have cr: "col_rest_of p ?col = map (\<lambda>j. A ! j ! c) (filter (\<lambda>j. j \<notin> set p) [0..<length A])"
    by (simp add: col_rest_of_nth)
  have ne: "col_rest_of p ?col \<noteq> [] \<longleftrightarrow> (\<exists>i<length A. i \<notin> set p)"
    unfolding cr by (auto simp: filter_empty_conv)
  have al: "(\<forall>x\<in>set (col_rest_of p ?col). x = ''-'') \<longleftrightarrow>
            (\<forall>i<length A. i \<notin> set p \<longrightarrow> A ! i ! c = ''-'')"
    unfolding cr by auto
  show ?thesis
    by (simp only: marked_def is_merge_iff ne al)
qed

lemma get_col_eq:
  "get_col A i =
     (if \<forall>row\<in>set A. i < length row then Inr (map (\<lambda>row. row ! i) A) else Inl IndexError)"
  by (induction A) simp_all

lemma find_merges_eq:
  "find_merges A p cs =
     (if \<forall>i\<in>set cs. \<forall>row\<in>set A. i < length row
      then Inr (filter (marked A p) cs) else Inl IndexError)"
proof (induction cs)
  case Nil
  show ?case by simp
next
  case (Cons i cs)
  show ?case
  proof (cases "\<forall>row\<in>set A. i < length row")
    case False
    then have "get_col A i = Inl IndexError"
      by (simp add: get_col_eq)
    moreover from False have "\<not> (\<forall>k\<in>set (i # cs). \<forall>row\<in>set A. k < length row)"
      by simp
    ultimately show ?thesis
      by simp
  next
    case True
    then have g: "get_col A i = Inr (map (\<lambda>row. row ! i) A)"
      by (simp add: get_col_eq)
    show ?thesis
    proof (cases "\<forall>k\<in>set cs. \<forall>row\<in>set A. k < length row")
      case f: False
      then have "find_merges A p cs = Inl IndexError"
        by (simp add: Cons.IH)
      moreover from f have "\<not> (\<forall>k\<in>set (i # cs). \<forall>row\<in>set A. k < length row)"
        by simp
      ultimately show ?thesis
        by (simp add: g)
    next
      case t: True
      then have r: "find_merges A p cs = Inr (filter (marked A p) cs)"
        by (simp add: Cons.IH)
      from t True have a: "\<forall>k\<in>set (i # cs). \<forall>row\<in>set A. k < length row"
        by simp
      have "find_merges A p (i # cs) = Inr (filter (marked A p) (i # cs))"
        by (simp add: g r marked_def)
      with a show ?thesis
        by simp
    qed
  qed
qed

lemma rows_bound_iff:
  "(\<forall>i\<in>set [0..<m]. \<forall>row\<in>set A. i < length row) \<longleftrightarrow> (\<forall>row\<in>set A. m \<le> length row)"
proof (intro iffI ballI)
  fix row
  assume a: "\<forall>i\<in>set [0..<m]. \<forall>row\<in>set A. i < length row" and r: "row \<in> set A"
  show "m \<le> length row"
  proof (rule ccontr)
    assume "\<not> m \<le> length row"
    then have "length row \<in> set [0..<m]" by simp
    with a r have "length row < length row" by blast
    then show False by simp
  qed
next
  fix i row
  assume "\<forall>row\<in>set A. m \<le> length row" "i \<in> set [0..<m]" "row \<in> set A"
  then have "i < m" "m \<le> length row" by simp_all
  then show "i < length row" by (rule less_le_trans)
qed

lemma ungap_merges_eq:
  "ungap_merges A l p =
     (if A \<noteq> [] \<and> (\<forall>row\<in>set A. length (hd A) \<le> length row)
      then Inr (filter (marked A (pidxs_of l p)) [0..<length (hd A)])
      else Inl IndexError)"
proof (cases A)
  case Nil
  then show ?thesis by (simp add: ungap_merges_def)
next
  case (Cons row0 rows)
  then have ne: "A \<noteq> []" by simp
  from Cons have "ungap_merges A l p = find_merges A (pidxs_of l p) [0..<length (hd A)]"
    by (simp add: ungap_merges_def)
  also have "\<dots> = (if \<forall>row\<in>set A. length (hd A) \<le> length row
      then Inr (filter (marked A (pidxs_of l p)) [0..<length (hd A)])
      else Inl IndexError)"
    unfolding find_merges_eq rows_bound_iff ..
  finally show ?thesis using ne by simp
qed

lemma merge_cell_started:
  "merge_cell M (acc, True, True) jc =
     Inr (acc @ [if snd jc = ''-'' then '''' else snd jc], True, True)"
  by (cases jc) simp

lemma row_loop_started:
  "row_loop M (acc, True, True) jcs =
     Inr (acc @ map (\<lambda>jc. if snd jc = ''-'' then '''' else snd jc) jcs, True, True)"
proof (induction jcs arbitrary: acc)
  case Nil
  show ?case by simp
next
  case (Cons jc jcs)
  show ?case
    by (simp only: row_loop.simps merge_cell_started sum.case Cons.IH list.map append_assoc
          append_Cons append_Nil)
qed

lemma merge_cell_normal:
  assumes "acc \<noteq> []" "fst jc \<in> set M \<longrightarrow> snd jc = ''-''"
  shows "merge_cell M (acc, False, False) jc =
           Inr (if fst jc \<in> set M then acc else acc @ [snd jc], False, False)"
  using assms by (cases jc) simp

lemma row_loop_merging:
  assumes "acc \<noteq> []" "\<forall>jc\<in>set jcs. fst jc \<in> set M \<longrightarrow> snd jc = ''-''"
  shows "row_loop M (acc, False, False) jcs =
           Inr (acc @ map snd (filter (\<lambda>jc. fst jc \<notin> set M) jcs), False, False)"
  using assms
proof (induction jcs arbitrary: acc)
  case Nil
  show ?case by simp
next
  case (Cons jc jcs)
  from Cons.prems have c: "fst jc \<in> set M \<longrightarrow> snd jc = ''-''"
    and r: "\<forall>jc\<in>set jcs. fst jc \<in> set M \<longrightarrow> snd jc = ''-''"
    by simp_all
  show ?case
  proof (cases "fst jc \<in> set M")
    case True
    with merge_cell_normal [OF Cons.prems(1) c]
    have "merge_cell M (acc, False, False) jc = Inr (acc, False, False)" by simp
    with Cons.IH [OF Cons.prems(1) r] True show ?thesis by simp
  next
    case False
    with merge_cell_normal [OF Cons.prems(1) c]
    have "merge_cell M (acc, False, False) jc = Inr (acc @ [snd jc], False, False)" by simp
    moreover have "acc @ [snd jc] \<noteq> []" by simp
    ultimately show ?thesis using Cons.IH [OF _ r, of "acc @ [snd jc]"] False by simp
  qed
qed

lemma merge_cell_len:
  assumes "acc \<noteq> []"
  shows "\<exists>acc'. merge_cell M (acc, False, False) jc = Inr (acc', False, False) \<and> acc' \<noteq> [] \<and>
           length acc' = length acc + (if fst jc \<in> set M then 0 else 1)"
  using assms by (cases jc) simp

lemma row_loop_len:
  assumes "acc \<noteq> []"
  shows "\<exists>acc'. row_loop M (acc, False, False) jcs = Inr (acc', False, False) \<and> acc' \<noteq> [] \<and>
           length acc' = length acc + length (filter (\<lambda>jc. fst jc \<notin> set M) jcs)"
  using assms
proof (induction jcs arbitrary: acc)
  case Nil
  then show ?case by simp
next
  case (Cons jc jcs)
  from merge_cell_len [OF Cons.prems, of M jc] obtain a1 where
    m: "merge_cell M (acc, False, False) jc = Inr (a1, False, False)" and n: "a1 \<noteq> []"
    and l: "length a1 = length acc + (if fst jc \<in> set M then 0 else 1)"
    by blast
  from Cons.IH [OF n] obtain a2 where
    r: "row_loop M (a1, False, False) jcs = Inr (a2, False, False)" and n2: "a2 \<noteq> []"
    and l2: "length a2 = length a1 + length (filter (\<lambda>jc. fst jc \<notin> set M) jcs)"
    by blast
  have "row_loop M (acc, False, False) (jc # jcs) = Inr (a2, False, False)"
    by (simp add: m r)
  moreover from l l2 have
    "length a2 = length acc + length (filter (\<lambda>jc. fst jc \<notin> set M) (jc # jcs))"
    by simp
  ultimately show ?case using n2 by blast
qed

lemma enumerate_filter_nth:
  "map snd (filter (\<lambda>jc. P (fst jc)) (enumerate 0 row)) =
     map (\<lambda>j. row ! j) (filter P [0..<length row])"
proof -
  have "enumerate 0 row = map (\<lambda>j. (j, row ! j)) [0..<length row]"
    by (rule nth_equalityI) (simp_all add: nth_enumerate_eq)
  then show ?thesis
    by (simp add: filter_map comp_def)
qed

lemma length_fill_gaps: "length (fill_gaps xs) = length xs"
  by (simp add: fill_gaps_def)

lemma ungap_row_leading:
  assumes "0 \<in> set M"
  shows "ungap_row M row = Inr (fill_gaps (map (\<lambda>c. if c = ''-'' then '''' else c) row))"
proof (cases row)
  case Nil
  then show ?thesis by (simp add: ungap_row_def)
next
  case (Cons c cs)
  have e: "enumerate 0 row = (0, c) # enumerate 1 cs"
    using Cons by simp
  have m: "merge_cell M ([], False, True) (0, c) =
             Inr ([if c = ''-'' then '''' else c], True, True)"
    using assms by simp
  have "row_loop M ([], False, True) (enumerate 0 row) =
          Inr ([if c = ''-'' then '''' else c] @
               map (\<lambda>jc. if snd jc = ''-'' then '''' else snd jc) (enumerate 1 cs), True, True)"
    unfolding e by (simp only: row_loop.simps m sum.case row_loop_started)
  moreover have "map (\<lambda>jc. if snd jc = ''-'' then '''' else snd jc) (enumerate 1 cs) =
                 map (\<lambda>c. if c = ''-'' then '''' else c) cs"
    by (rule nth_equalityI) (simp_all add: nth_enumerate_eq)
  ultimately show ?thesis
    using Cons by (simp add: ungap_row_def)
qed

lemma ungap_row_nonleading_len:
  assumes "0 \<notin> set M"
  shows "\<exists>out. ungap_row M row = Inr out \<and>
           length out = length (filter (\<lambda>j. j \<notin> set M) [0..<length row])"
proof (cases row)
  case Nil
  then show ?thesis by (simp add: ungap_row_def fill_gaps_def)
next
  case (Cons c cs)
  have e: "enumerate 0 row = (0, c) # enumerate 1 cs"
    using Cons by simp
  have m: "merge_cell M ([], False, True) (0, c) = Inr ([c], False, False)"
    using assms by simp
  from row_loop_len [of "[c]" M "enumerate 1 cs"] obtain acc' where
    r: "row_loop M ([c], False, False) (enumerate 1 cs) = Inr (acc', False, False)"
    and l: "length acc' = length [c] + length (filter (\<lambda>jc. fst jc \<notin> set M) (enumerate 1 cs))"
    by auto
  have "row_loop M ([], False, True) (enumerate 0 row) = Inr (acc', False, False)"
    unfolding e by (simp only: row_loop.simps m sum.case r)
  then have u: "ungap_row M row = Inr (fill_gaps acc')"
    by (simp add: ungap_row_def)
  have "length acc' = length (filter (\<lambda>jc. fst jc \<notin> set M) (enumerate 0 row))"
    unfolding e using l assms by simp
  also have "\<dots> = length (map snd (filter (\<lambda>jc. fst jc \<notin> set M) (enumerate 0 row)))"
    by simp
  also have "\<dots> = length (filter (\<lambda>j. j \<notin> set M) [0..<length row])"
    unfolding enumerate_filter_nth [of "\<lambda>j. j \<notin> set M" row] by simp
  finally show ?thesis
    using u by (simp add: length_fill_gaps)
qed

lemma ungap_row_nonleading_keep:
  assumes "0 \<notin> set M" and g: "\<forall>j<length row. j \<in> set M \<longrightarrow> row ! j = ''-''"
  shows "ungap_row M row =
           Inr (fill_gaps (map (\<lambda>j. row ! j) (filter (\<lambda>j. j \<notin> set M) [0..<length row])))"
proof (cases row)
  case Nil
  then show ?thesis by (simp add: ungap_row_def)
next
  case (Cons c cs)
  have e: "enumerate 0 row = (0, c) # enumerate 1 cs"
    using Cons by simp
  have m: "merge_cell M ([], False, True) (0, c) = Inr ([c], False, False)"
    using assms by simp
  have h: "\<forall>jc\<in>set (enumerate 1 cs). fst jc \<in> set M \<longrightarrow> snd jc = ''-''"
  proof (intro ballI impI)
    fix jc
    assume a: "jc \<in> set (enumerate 1 cs)" and b: "fst jc \<in> set M"
    from a have "jc \<in> set (enumerate 0 row)" unfolding e by simp
    then have "fst jc < length row" "row ! fst jc = snd jc"
      by (simp_all add: in_set_enumerate_eq)
    with g b show "snd jc = ''-''" by metis
  qed
  have "row_loop M ([c], False, False) (enumerate 1 cs) =
          Inr ([c] @ map snd (filter (\<lambda>jc. fst jc \<notin> set M) (enumerate 1 cs)), False, False)"
    by (rule row_loop_merging [OF _ h]) simp
  then have "row_loop M ([], False, True) (enumerate 0 row) =
          Inr ([c] @ map snd (filter (\<lambda>jc. fst jc \<notin> set M) (enumerate 1 cs)), False, False)"
    unfolding e by (simp only: row_loop.simps m sum.case)
  moreover have "[c] @ map snd (filter (\<lambda>jc. fst jc \<notin> set M) (enumerate 1 cs)) =
                 map snd (filter (\<lambda>jc. fst jc \<notin> set M) (enumerate 0 row))"
    unfolding e using assms(1) by simp
  ultimately have "ungap_row M row =
      Inr (fill_gaps (map snd (filter (\<lambda>jc. fst jc \<notin> set M) (enumerate 0 row))))"
    by (simp add: ungap_row_def)
  then show ?thesis
    unfolding enumerate_filter_nth [of "\<lambda>j. j \<notin> set M" row] .
qed

lemma ungap_rows_map:
  "\<forall>row\<in>set A. ungap_row M row = Inr (f row) \<Longrightarrow> ungap_rows M A = Inr (map f A)"
  by (induction A) simp_all

lemma ungap_row_total:
  "\<exists>out. ungap_row M row = Inr out \<and>
     length out = (if 0 \<in> set M then length row
                   else length (filter (\<lambda>j. j \<notin> set M) [0..<length row]))"
proof (cases "0 \<in> set M")
  case True
  then show ?thesis
    by (simp add: ungap_row_leading length_fill_gaps)
next
  case False
  with ungap_row_nonleading_len [of M row] show ?thesis by simp
qed

lemma ungap_row_projr: "ungap_row M row = Inr (projr (ungap_row M row))"
  using ungap_row_total [of M row] by auto

lemma ungap_rows_eq: "ungap_rows M A = Inr (map (\<lambda>row. projr (ungap_row M row)) A)"
  by (rule ungap_rows_map) (simp add: ungap_row_projr [symmetric])

lemma length_out_row:
  "length (projr (ungap_row M row)) =
     (if 0 \<in> set M then length row else length (filter (\<lambda>j. j \<notin> set M) [0..<length row]))"
proof -
  from ungap_row_total [of M row] obtain out where
    "ungap_row M row = Inr out"
    "length out = (if 0 \<in> set M then length row
                   else length (filter (\<lambda>j. j \<notin> set M) [0..<length row]))"
    by blast
  then show ?thesis by simp
qed

lemma length_out_row_le: "length (projr (ungap_row M row)) \<le> length row"
proof -
  have "length (filter (\<lambda>j. j \<notin> set M) [0..<length row]) \<le> length [0..<length row]"
    by (rule length_filter_le)
  then show ?thesis by (simp add: length_out_row)
qed

lemma ungap_merges_ok:
  "ungap_merges A l p =
     (if rows_ok A then Inr (filter (marked A (pidxs_of l p)) [0..<length (hd A)])
      else Inl IndexError)"
  unfolding rows_ok_def by (rule ungap_merges_eq)

lemma ungap_eq:
  "ungap A l p =
     (if rows_ok A
      then (if filter (marked A (pidxs_of l p)) [0..<length (hd A)] \<noteq> []
            then Inr (map (\<lambda>row. projr (ungap_row
                     (filter (marked A (pidxs_of l p)) [0..<length (hd A)]) row)) A)
            else Inr A)
      else Inl IndexError)"
proof (cases "rows_ok A")
  case False
  then have "ungap_merges A l p = Inl IndexError"
    by (simp only: ungap_merges_ok if_False)
  then have "ungap A l p = Inl IndexError"
    by (simp only: ungap_def sum.case)
  with False show ?thesis by (simp only: if_False)
next
  case True
  then have "ungap_merges A l p = Inr (filter (marked A (pidxs_of l p)) [0..<length (hd A)])"
    by (simp only: ungap_merges_ok if_True)
  then have "ungap A l p =
      (if filter (marked A (pidxs_of l p)) [0..<length (hd A)] \<noteq> []
       then Inr (map (\<lambda>row. projr (ungap_row
                     (filter (marked A (pidxs_of l p)) [0..<length (hd A)]) row)) A)
       else Inr A)"
    by (simp only: ungap_def sum.case ungap_rows_eq)
  with True show ?thesis by (simp only: if_True)
qed

text \<open>
  Claim C8: for every alignment matrix the output of the gap-merge transform is a matrix
  with as many rows and a width no larger than the input width; when no column is a merge
  target the input is returned unchanged.
\<close>

theorem ungap_width:
  assumes "is_matrix A"
  shows "\<exists>B. ungap A l p = Inr B \<and> is_matrix B \<and> length B = length A \<and>
           length (hd B) \<le> length (hd A) \<and>
           (ungap_merges A l p = Inr [] \<longrightarrow> B = A)"
proof -
  let ?M = "filter (marked A (pidxs_of l p)) [0..<length (hd A)]"
  let ?f = "\<lambda>row. projr (ungap_row ?M row)"
  from assms have ne: "A \<noteq> []" and rect: "\<forall>row\<in>set A. length row = length (hd A)"
    unfolding is_matrix_def by blast+
  have wf: "rows_ok A"
    unfolding rows_ok_def
  proof (intro conjI ballI)
    show "A \<noteq> []" by (rule ne)
  next
    fix row assume "row \<in> set A"
    with rect have "length row = length (hd A)" by blast
    then show "length (hd A) \<le> length row" by (rule eq_imp_le [OF sym])
  qed
  have ms: "ungap_merges A l p = Inr ?M"
    using wf by (simp only: ungap_merges_ok if_True)
  show ?thesis
  proof (cases "?M = []")
    case True
    with wf have "ungap A l p = Inr A" by (simp only: ungap_eq if_True not_not if_False simp_thms)
    with assms show ?thesis by blast
  next
    case False
    with wf have u: "ungap A l p = Inr (map ?f A)" by (simp only: ungap_eq if_True not_False_eq_True)
    have hd: "hd (map ?f A) = ?f (hd A)"
      using ne by (simp add: hd_map)
    have "\<forall>row\<in>set (map ?f A). length row = length (hd (map ?f A))"
    proof
      fix row
      assume "row \<in> set (map ?f A)"
      then obtain r where r: "r \<in> set A" and row: "row = ?f r" by auto
      from r rect have "length r = length (hd A)" by blast
      then show "length row = length (hd (map ?f A))"
        unfolding hd row by (simp only: length_out_row)
    qed
    moreover from ne have "map ?f A \<noteq> []" by simp
    ultimately have m: "is_matrix (map ?f A)"
      unfolding is_matrix_def by blast
    have "length (hd (map ?f A)) \<le> length (hd A)"
      unfolding hd by (rule length_out_row_le)
    moreover have "length (map ?f A) = length A" by simp
    moreover from ms False have "ungap_merges A l p \<noteq> Inr []" by simp
    ultimately show ?thesis using u m by blast
  qed
qed

theorem ungap_width_witness:
  "is_matrix [[''a'', ''-'', ''-'', ''b''], [''c'', ''-'', ''-'', ''b''], [''x'', ''y'', ''z'', ''c'']] \<and>
   (\<exists>B. ungap [[''a'', ''-'', ''-'', ''b''], [''c'', ''-'', ''-'', ''b''], [''x'', ''y'', ''z'', ''c'']]
          [''A'', ''B'', ''P''] ''P'' = Inr B \<and> is_matrix B \<and> length B = 3 \<and> length (hd B) \<le> 4)"
proof -
  let ?A = "[[''a'', ''-'', ''-'', ''b''], [''c'', ''-'', ''-'', ''b''], [''x'', ''y'', ''z'', ''c'']]"
  have h: "is_matrix ?A"
    by (simp add: is_matrix_def)
  from ungap_width [OF h, of "[''A'', ''B'', ''P'']" "''P''"] h
  show ?thesis by auto
qed

lemma filter_upt_split:
  assumes "m \<le> n"
  shows "filter P [0..<n] = filter P [0..<m] @ filter P [m..<n]"
proof -
  from assms obtain k where n: "n = m + k"
    by (auto simp: le_iff_add)
  have "[0..<m + k] = [0..<m] @ [m..<m + k]"
    by (rule upt_add_eq_append) simp
  then have "[0..<n] = [0..<m] @ [m..<n]"
    unfolding n .
  then show ?thesis by (simp only: filter_append)
qed

lemma fill_gaps_id:
  assumes "'''' \<notin> set xs"
  shows "fill_gaps xs = xs"
  unfolding fill_gaps_def using assms by (induction xs) auto

lemma leading_row_id:
  assumes "'''' \<notin> set row"
  shows "fill_gaps (map (\<lambda>c. if c = ''-'' then '''' else c) row) = row"
  unfolding fill_gaps_def using assms by (induction row) auto

lemma out_row_leading_id:
  assumes "0 \<in> set M" "'''' \<notin> set row"
  shows "projr (ungap_row M row) = row"
  using assms by (simp add: ungap_row_leading leading_row_id)

lemma nth_fill_gaps:
  assumes "c < length xs" "xs ! c \<noteq> ''''"
  shows "fill_gaps xs ! c = xs ! c"
  using assms by (simp add: fill_gaps_def)

lemma merged_rows:
  assumes ok: "rows_ok A" and M: "M = filter (marked A P) [0..<length (hd A)]"
      and z: "0 \<notin> set M" and ne: "\<forall>row\<in>set A. '''' \<notin> set row"
  shows "rows_ok (map (\<lambda>row. projr (ungap_row M row)) A)"
    and "filter (marked (map (\<lambda>row. projr (ungap_row M row)) A) P)
           [0..<length (hd (map (\<lambda>row. projr (ungap_row M row)) A))] = []"
proof -
  let ?f = "\<lambda>row. projr (ungap_row M row)"
  let ?B = "map ?f A"
  let ?m = "length (hd A)"
  let ?K = "filter (\<lambda>j. j \<notin> set M) [0..<?m]"
  from ok have An: "A \<noteq> []" and Al: "\<forall>row\<in>set A. ?m \<le> length row"
    unfolding rows_ok_def by blast+
  have lenf: "\<And>r. length (?f r) = length (filter (\<lambda>j. j \<notin> set M) [0..<length r])"
    using z by (simp only: length_out_row if_False)
  have split: "\<And>r. r \<in> set A \<Longrightarrow>
      filter (\<lambda>j. j \<notin> set M) [0..<length r] = ?K @ filter (\<lambda>j. j \<notin> set M) [?m..<length r]"
  proof -
    fix r assume "r \<in> set A"
    with Al have "?m \<le> length r" by blast
    then show "filter (\<lambda>j. j \<notin> set M) [0..<length r] =
                 ?K @ filter (\<lambda>j. j \<notin> set M) [?m..<length r]"
      by (rule filter_upt_split)
  qed
  have hdB: "hd ?B = ?f (hd A)"
    using An by (simp add: hd_map)
  have lhd: "length (hd ?B) = length ?K"
    unfolding hdB lenf ..
  show okB: "rows_ok ?B"
    unfolding rows_ok_def
  proof (intro conjI ballI)
    show "?B \<noteq> []" using An by simp
  next
    fix row assume "row \<in> set ?B"
    then obtain r where r: "r \<in> set A" and row: "row = ?f r" by auto
    have "length row = length (?K @ filter (\<lambda>j. j \<notin> set M) [?m..<length r])"
      unfolding row lenf split [OF r] ..
    then show "length (hd ?B) \<le> length row"
      unfolding lhd by simp
  qed
  have nomark: "\<not> marked ?B P c" if c: "c < length ?K" for c
  proof
    assume mb: "marked ?B P c"
    let ?k = "?K ! c"
    from c have "?k \<in> set ?K" by (rule nth_mem)
    then have k: "?k < ?m" "?k \<notin> set M" by simp_all
    then have "\<not> marked A P ?k" unfolding M by simp
    moreover from mb have ex: "\<exists>i<length A. i \<notin> set P"
      and allB: "\<forall>i<length A. i \<notin> set P \<longrightarrow> ?B ! i ! c = ''-''"
      unfolding marked_iff by simp_all
    ultimately obtain i where i: "i < length A" "i \<notin> set P" and nk: "A ! i ! ?k \<noteq> ''-''"
      unfolding marked_iff by blast
    let ?r = "A ! i"
    from i have rA: "?r \<in> set A" by simp
    with Al have lr: "?m \<le> length ?r" by blast
    have gaps: "\<forall>j<length ?r. j \<in> set M \<longrightarrow> ?r ! j = ''-''"
    proof (intro allI impI)
      fix j assume "j < length ?r" and "j \<in> set M"
      then have "marked A P j" unfolding M by simp
      with i show "?r ! j = ''-''" unfolding marked_iff by blast
    qed
    let ?K' = "filter (\<lambda>j. j \<notin> set M) [0..<length ?r]"
    have out: "?f ?r = fill_gaps (map (\<lambda>j. ?r ! j) ?K')"
      by (simp only: ungap_row_nonleading_keep [OF z gaps] sum.sel)
    have K': "?K' = ?K @ filter (\<lambda>j. j \<notin> set M) [?m..<length ?r]"
      by (rule split [OF rA])
    have cK': "c < length ?K'" unfolding K' using c by simp
    have kc: "?K' ! c = ?k" unfolding K' using c by (simp add: nth_append)
    from k lr have "?k < length ?r" by simp
    then have "?r ! ?k \<in> set ?r" by (rule nth_mem)
    with ne rA have nz: "?r ! ?k \<noteq> ''''" by metis
    have e: "map (\<lambda>j. ?r ! j) ?K' ! c = ?r ! ?k"
      using cK' kc by simp
    have l: "c < length (map (\<lambda>j. ?r ! j) ?K')" using cK' by simp
    from nz have "map (\<lambda>j. ?r ! j) ?K' ! c \<noteq> ''''" unfolding e .
    from nth_fill_gaps [OF l this]
    have "fill_gaps (map (\<lambda>j. ?r ! j) ?K') ! c = ?r ! ?k"
      unfolding e .
    then have "?f ?r ! c = ?r ! ?k" unfolding out .
    moreover have "?B ! i = ?f ?r" using i by simp
    ultimately have "?B ! i ! c = ?r ! ?k" by simp
    with allB i nk show False by simp
  qed
  show "filter (marked ?B P) [0..<length (hd ?B)] = []"
    unfolding lhd filter_empty_conv
  proof
    fix c assume "c \<in> set [0..<length ?K]"
    then have "c < length ?K" by simp
    then show "\<not> marked ?B P c" by (rule nomark)
  qed
qed

lemma ungap_leading_unchanged:
  assumes ok: "rows_ok A" and ne: "no_empty_cell A"
      and z: "0 \<in> set (filter (marked A (pidxs_of l p)) [0..<length (hd A)])"
  shows "ungap A l p = Inr A"
proof -
  let ?M = "filter (marked A (pidxs_of l p)) [0..<length (hd A)]"
  from z have "?M \<noteq> []" by (rule_tac notI) simp
  with ok have u: "ungap A l p = Inr (map (\<lambda>row. projr (ungap_row ?M row)) A)"
    by (simp only: ungap_eq if_True not_False_eq_True)
  have "map (\<lambda>row. projr (ungap_row ?M row)) A = A"
  proof (rule map_idI)
    fix row assume "row \<in> set A"
    with ne have "[] \<notin> set row" unfolding no_empty_cell_def by blast
    with z show "projr (ungap_row ?M row) = row" by (rule out_row_leading_id)
  qed
  with u show ?thesis by simp
qed

text \<open>
  Claim C7: applying the gap-merge transform twice gives the same result as applying it
  once, for every alignment whose cells are non-empty strings (sound symbols or the gap
  symbol); a call that raises keeps raising.
\<close>

theorem ungap_idempotent:
  assumes ne: "no_empty_cell A"
  shows "(case ungap A l p of Inl e \<Rightarrow> Inl e | Inr B \<Rightarrow> ungap B l p) = ungap A l p"
proof (cases "rows_ok A")
  case False
  then have "ungap A l p = Inl IndexError"
    by (simp only: ungap_eq if_False)
  then show ?thesis by simp
next
  case ok: True
  let ?P = "pidxs_of l p"
  let ?M = "filter (marked A ?P) [0..<length (hd A)]"
  let ?B = "map (\<lambda>row. projr (ungap_row ?M row)) A"
  have "\<exists>B. ungap A l p = Inr B \<and> ungap B l p = Inr B"
  proof (cases "?M = []")
    case True
    with ok have "ungap A l p = Inr A"
      by (simp only: ungap_eq if_True not_not if_False simp_thms)
    then show ?thesis by blast
  next
    case M: False
    show ?thesis
    proof (cases "0 \<in> set ?M")
      case True
      with ok ne have "ungap A l p = Inr A" by (rule ungap_leading_unchanged)
      then show ?thesis by blast
    next
      case z: False
      from ok M have u: "ungap A l p = Inr ?B"
        by (simp only: ungap_eq if_True not_False_eq_True)
      from ne have ne': "\<forall>row\<in>set A. '''' \<notin> set row"
        unfolding no_empty_cell_def .
      have okB: "rows_ok ?B"
        by (rule merged_rows(1) [OF ok refl z ne'])
      have nm: "filter (marked ?B ?P) [0..<length (hd ?B)] = []"
        by (rule merged_rows(2) [OF ok refl z ne'])
      have "ungap ?B l p = Inr ?B"
        using okB nm by (simp only: ungap_eq if_True not_not if_False simp_thms)
      with u show ?thesis by blast
    qed
  qed
  then show ?thesis by auto
qed

theorem ungap_idempotent_witness:
  "no_empty_cell [[''a'', ''-'', ''-'', ''b''], [''c'', ''-'', ''-'', ''b''], [''x'', ''y'', ''z'', ''c'']] \<and>
   ungap [[''a'', ''-'', ''-'', ''b''], [''c'', ''-'', ''-'', ''b''], [''x'', ''y'', ''z'', ''c'']]
     [''A'', ''B'', ''P''] ''P'' = Inr [[''a'', ''b''], [''c'', ''b''], [''x.y.z'', ''c'']] \<and>
   ungap [[''a'', ''b''], [''c'', ''b''], [''x.y.z'', ''c'']] [''A'', ''B'', ''P''] ''P''
     = Inr [[''a'', ''b''], [''c'', ''b''], [''x.y.z'', ''c'']]"
proof -
  let ?A = "[[''a'', ''-'', ''-'', ''b''], [''c'', ''-'', ''-'', ''b''], [''x'', ''y'', ''z'', ''c'']]"
  have h: "no_empty_cell ?A"
    by (simp add: no_empty_cell_def)
  have e: "ungap ?A [''A'', ''B'', ''P''] ''P'' = Inr [[''a'', ''b''], [''c'', ''b''], [''x.y.z'', ''c'']]"
    by code_simp
  from ungap_idempotent [OF h, of "[''A'', ''B'', ''P'']" "''P''"] h e
  show ?thesis by simp
qed

text \<open>
  Claim C3 at a concrete alignment: columns 0 and 1 are merge targets and form a leading
  run (the reference language \<open>P\<close> is the last row). The claim asks for one fused column
  for the run; the code returns the alignment as it is, with the run still in two columns.
\<close>

theorem ungap_leading_run_not_fused:
  "ungap_merges [[''-'', ''-'', ''a''], [''-'', ''-'', ''b''], [''x'', ''y'', ''c'']]
     [''A'', ''B'', ''P''] ''P'' = Inr [0, 1] \<and>
   ungap [[''-'', ''-'', ''a''], [''-'', ''-'', ''b''], [''x'', ''y'', ''c'']]
     [''A'', ''B'', ''P''] ''P''
     = Inr [[''-'', ''-'', ''a''], [''-'', ''-'', ''b''], [''x'', ''y'', ''c'']]"
  by code_simp

lemma setitem_fresh:
  "k \<notin> fst ` set d \<Longrightarrow> setitem d k v = d @ [(k, v)]"
  by (induction d) auto













text \<open>
  The rounding at values whose floats are known: \<^verbatim>\<open>0.1\<close> is
  \<open>3602879701896397 / 2 ^ 55\<close>, \<open>2 ^ 53 + 1\<close> lies half way between two floats and goes to
  the even one, and \<^verbatim>\<open>int(25 * 0.58 + 0.5)\<close> is 14 although \<open>25 * 0.58 = 14.5\<close>.
\<close>

lemma round_double_examples:
  "round_double (1 / 10) = Inr (3602879701896397 / 36028797018963968) \<and>
   round_double 9007199254740993 = Inr 9007199254740992 \<and>
   round_double (- 9007199254740995) = Inr (- 9007199254740996) \<and>
   is_double (5404319552844595 / 18014398509481984) \<and>
   \<not> is_double (3 / 10) \<and>
   split_off_of 25 (5224175567749775 / 9007199254740992) = Inr 14 \<and>
   split_off_of 10 (3602879701896397 / 18014398509481984) = Inr 2"
  by code_simp












text \<open>
  Claim C4 at a concrete collection: the only item has the placeholder \<open>?\<close> as its value
  for language \<open>A\<close>, which is not a real value. The claim says that no derived item is
  emitted for that pair; the code emits the derived item \<open>c1-1\<close>, with the placeholder
  recorded as its solution.
\<close>

theorem split_emits_item_for_placeholder:
  "\<not> real_value [''?''] \<and>
   split_training_test_data [(''c1'', [(''A'', [''?'']), (''B'', [''b''])])] [''A'', ''B''] (1 / 2)
     = Inr ([],
            [(''c1-1'', [(''A'', [''?'']), (''B'', [''b''])]),
             (''c1-2'', [(''A'', [''?'']), (''B'', [''?''])])],
            [(''c1-1'', [(''A'', [''?''])]), (''c1-2'', [(''B'', [''b''])])])"
  by code_simp

subsection \<open>Dicts as association lists\<close>

lemma setitem_keys: "fst ` set (setitem d k v) = insert k (fst ` set d)"
  by (induction d) auto

lemma setitem_distinct: "distinct (map fst d) \<Longrightarrow> distinct (map fst (setitem d k v))"
proof (induction d)
  case Nil
  show ?case by simp
next
  case (Cons kv d)
  then have "distinct (map fst (setitem d k v))" by simp
  moreover from Cons.prems have "fst kv \<notin> fst ` set d" by simp
  then have "fst kv \<noteq> k \<Longrightarrow> fst kv \<notin> fst ` set (setitem d k v)"
    by (simp only: setitem_keys) simp
  ultimately show ?case using Cons.prems by auto
qed

lemma map_of_setitem: "map_of (setitem d k v) = (map_of d)(k \<mapsto> v)"
  by (induction d) (auto simp: fun_eq_iff)

lemma setitem_values: "snd ` set (setitem d k v) \<subseteq> insert v (snd ` set d)"
  by (induction d) auto

lemma setitem_distinct_values:
  "distinct (map snd d) \<Longrightarrow> v \<notin> snd ` set d \<Longrightarrow> distinct (map snd (setitem d k v))"
proof (induction d)
  case Nil
  show ?case by simp
next
  case (Cons kv d)
  from Cons.prems have a: "distinct (map snd d)" "v \<notin> snd ` set d" "snd kv \<notin> snd ` set d"
    and b: "v \<noteq> snd kv"
    by auto
  from Cons.IH [OF a(1,2)] have ih: "distinct (map snd (setitem d k v))" .
  from setitem_values [of d k v] a(3) b have "snd kv \<notin> snd ` set (setitem d k v)"
    by auto
  with ih a show ?case by auto
qed

lemma foldl_setitem_keys:
  "fst ` set (foldl (\<lambda>d kv. setitem d (fst kv) (snd kv)) acc ps) = fst ` set acc \<union> fst ` set ps"
  by (induction ps arbitrary: acc) (auto simp: setitem_keys)

lemma foldl_setitem_distinct:
  "distinct (map fst acc) \<Longrightarrow>
   distinct (map fst (foldl (\<lambda>d kv. setitem d (fst kv) (snd kv)) acc ps))"
  by (induction ps arbitrary: acc) (simp_all add: setitem_distinct)


lemma foldl_setitem_map_of:
  "map_of (foldl (\<lambda>d kv. setitem d (fst kv) (snd kv)) acc ps) = map_of acc ++ map_of (rev ps)"
proof (induction ps arbitrary: acc)
  case Nil
  show ?case by simp
next
  case (Cons kv ps)
  have "map_of (setitem acc (fst kv) (snd kv)) ++ map_of (rev ps) =
        map_of acc ++ map_of (rev ps @ [kv])"
    by (cases kv) (simp add: map_of_setitem fun_eq_iff map_add_def split: option.splits)
  with Cons.IH [of "setitem acc (fst kv) (snd kv)"] show ?case by simp
qed

lemma dict_of_keys: "fst ` set (dict_of ps) = fst ` set ps"
  by (simp add: dict_of_def foldl_setitem_keys)

lemma dict_of_distinct: "distinct (map fst (dict_of ps))"
  unfolding dict_of_def by (rule foldl_setitem_distinct) simp


lemma dict_of_map_of: "map_of (dict_of ps) = map_of (rev ps)"
  by (simp add: dict_of_def foldl_setitem_map_of)

lemma foldl_setitem_fresh:
  "distinct (map fst ps) \<Longrightarrow> fst ` set ps \<inter> fst ` set acc = {} \<Longrightarrow>
   foldl (\<lambda>d kv. setitem d (fst kv) (snd kv)) acc ps = acc @ ps"
proof (induction ps arbitrary: acc)
  case Nil
  show ?case by simp
next
  case (Cons kv ps)
  from Cons.prems have f: "fst kv \<notin> fst ` set acc" by auto
  have s: "setitem acc (fst kv) (snd kv) = acc @ [kv]"
    using setitem_fresh [OF f, of "snd kv"] by simp
  from Cons.prems have "distinct (map fst ps)" and "fst ` set ps \<inter> fst ` set (acc @ [kv]) = {}"
    by auto
  from Cons.IH [OF this] show ?case by (simp add: s)
qed

lemma dict_of_id: "distinct (map fst ps) \<Longrightarrow> dict_of ps = ps"
  using foldl_setitem_fresh [of ps "[]"] by (simp add: dict_of_def)

subsection \<open>The codec\<close>

lemma codec_base:
  assumes "finite S"
  shows "dict_of (zip (sorted_list_of_set S) (map int [2..<card S + 2])) =
           zip (sorted_list_of_set S) (map int [2..<card S + 2])"
    and "map fst (zip (sorted_list_of_set S) (map int [2..<card S + 2])) = sorted_list_of_set S"
    and "map snd (zip (sorted_list_of_set S) (map int [2..<card S + 2])) = map int [2..<card S + 2]"
proof -
  let ?ks = "sorted_list_of_set S" and ?vs = "map int [2..<card S + 2]"
  have "length ?ks = card S" by simp
  moreover have "length ?vs = card S"
    by (simp only: length_map length_upt add_diff_cancel_right')
  ultimately have l: "length ?ks = length ?vs" by (rule trans [OF _ sym])
  show f: "map fst (zip ?ks ?vs) = ?ks" using l by (rule map_fst_zip)
  show "map snd (zip ?ks ?vs) = ?vs" using l by (rule map_snd_zip)
  have "distinct (map fst (zip ?ks ?vs))" unfolding f by simp
  then show "dict_of (zip ?ks ?vs) = zip ?ks ?vs" by (rule dict_of_id)
qed

lemma sound2idx_props:
  assumes "finite S"
  shows "fst ` set (make_sound2idx S g m) = S \<union> {g, m}"
    and "distinct (map fst (make_sound2idx S g m))"
    and "distinct (map snd (make_sound2idx S g m))"
    and "map_of (make_sound2idx S g m) m = Some 0"
    and "g \<noteq> m \<Longrightarrow> map_of (make_sound2idx S g m) g = Some 1"
proof -
  let ?ks = "sorted_list_of_set S" and ?vs = "map int [2..<card S + 2]"
  let ?d0 = "zip ?ks ?vs"
  let ?d1 = "setitem ?d0 g 1"
  have d: "make_sound2idx S g m = setitem ?d1 m 0"
    by (simp only: make_sound2idx_def codec_base(1) [OF assms])
  have k0: "fst ` set ?d0 = S"
    using codec_base(2) [OF assms] assms by (metis set_map set_sorted_list_of_set)
  have v0: "snd ` set ?d0 = set ?vs"
    using codec_base(3) [OF assms] by (metis set_map)
  show "fst ` set (make_sound2idx S g m) = S \<union> {g, m}"
    unfolding d by (simp only: setitem_keys k0) blast
  have "distinct (map fst ?d0)"
    by (simp only: codec_base(2) [OF assms]) simp
  then show "distinct (map fst (make_sound2idx S g m))"
    unfolding d by (intro setitem_distinct)
  have dv0: "distinct (map snd ?d0)"
    by (simp only: codec_base(3) [OF assms]) (simp add: distinct_map inj_on_def)
  have n1: "1 \<notin> snd ` set ?d0" unfolding v0 by auto
  have dv1: "distinct (map snd ?d1)"
    using dv0 n1 by (rule setitem_distinct_values)
  have "0 \<notin> insert 1 (snd ` set ?d0)" unfolding v0 by auto
  with setitem_values [of ?d0 g 1] have n0: "0 \<notin> snd ` set ?d1" by blast
  show "distinct (map snd (make_sound2idx S g m))"
    unfolding d using dv1 n0 by (rule setitem_distinct_values)
  show "map_of (make_sound2idx S g m) m = Some 0"
    unfolding d by (simp add: map_of_setitem)
  show "g \<noteq> m \<Longrightarrow> map_of (make_sound2idx S g m) g = Some 1"
    unfolding d by (simp add: map_of_setitem)
qed

lemma idx2sound_inverse:
  assumes dk: "distinct (map fst d)" and dv: "distinct (map snd d)" and s: "s \<in> fst ` set d"
  shows "\<exists>c. map_of d s = Some c \<and> map_of (make_idx2sound d) c = Some s"
proof -
  from s obtain c where sc: "(s, c) \<in> set d" by auto
  with dk have m: "map_of d s = Some c" by (rule map_of_is_SomeI)
  let ?ps = "rev (map (\<lambda>kv. (snd kv, fst kv)) d)"
  have "map fst ?ps = rev (map snd d)" by (simp add: rev_map comp_def)
  with dv have dp: "distinct (map fst ?ps)" by simp
  from sc have "(c, s) \<in> set ?ps" by force
  with dp have "map_of ?ps c = Some s" by (rule map_of_is_SomeI)
  then have "map_of (make_idx2sound d) c = Some s"
    by (simp only: make_idx2sound_def dict_of_map_of)
  with m show ?thesis by blast
qed


subsection \<open>What \<open>fit\<close> computes\<close>

lemma py_index_last:
  assumes "py_index xs (- 1) = Inr y"
  shows "xs \<noteq> []" and "y = last xs"
proof -
  show ne: "xs \<noteq> []"
  proof
    assume "xs = []"
    with assms show False by (simp add: py_index_def)
  qed
  then have l: "0 < length xs" by simp
  then have "nat (int (length xs) + - 1) = length xs - 1" by arith
  with assms l have "y = xs ! (length xs - 1)"
    by (simp add: py_index_def split: if_splits)
  with ne show "y = last xs" by (simp add: last_conv_nth)
qed

lemma fit_rows_sounds:
  "fit_rows n c (pats, S) irs = Inr st \<Longrightarrow>
   snd st = S \<union> (\<Union>ir\<in>set irs. row_sounds n (snd ir))"
proof (induction irs arbitrary: pats S)
  case Nil
  then show ?case by auto
next
  case (Cons ir irs)
  from Cons.prems obtain label where "py_index (snd ir) (int n - 1) = Inr label"
    by (cases "py_index (snd ir) (int n - 1)") simp_all
  note a = this
  from Cons.prems a obtain final where b: "py_index (snd ir) (- 1) = Inr final"
    by (cases "py_index (snd ir) (- 1)") simp_all
  from py_index_last [OF b] have rs: "row_sounds n (snd ir) = set (row_pattern n (snd ir)) \<union> {final}"
    by (simp add: row_sounds_def)
  from Cons.prems a b
  have "fit_rows n c (add_occurrence pats (row_pattern n (snd ir)) label (c, fst ir),
          S \<union> set (row_pattern n (snd ir)) \<union> {final}) irs = Inr st"
    by simp
  from Cons.IH [OF this]
  have "snd st = S \<union> set (row_pattern n (snd ir)) \<union> {final} \<union> (\<Union>ir\<in>set irs. row_sounds n (snd ir))" .
  then show ?case using rs by auto
qed

lemma fit_alignments_sounds:
  "fit_alignments b L st es = Inr st' \<Longrightarrow>
   snd st' = snd st \<union>
     (\<Union>row\<in>set (concat (map (\<lambda>entry. func b (snd (snd entry)) (fst (snd entry))
                                     (target_last (languages b) L) True) es)).
        row_sounds (length (languages b)) row)"
proof (induction es arbitrary: st)
  case Nil
  then show ?case by simp
next
  case (Cons entry es)
  let ?M = "func b (snd (snd entry)) (fst (snd entry)) (target_last (languages b) L) True"
  let ?n = "length (languages b)"
  from Cons.prems obtain st1 where
    a: "fit_rows ?n (fst entry) st (enumerate 0 ?M) = Inr st1"
    by (cases "fit_rows ?n (fst entry) st (enumerate 0 ?M)") simp_all
  with Cons.prems have r: "fit_alignments b L st1 es = Inr st'" by simp
  from a have "fit_rows ?n (fst entry) (fst st, snd st) (enumerate 0 ?M) = Inr st1" by simp
  from fit_rows_sounds [OF this]
  have "snd st1 = snd st \<union> (\<Union>ir\<in>set (enumerate 0 ?M). row_sounds ?n (snd ir))" .
  also have "(\<Union>ir\<in>set (enumerate 0 ?M). row_sounds ?n (snd ir)) =
             (\<Union>row\<in>snd ` set (enumerate 0 ?M). row_sounds ?n row)"
    by (simp only: image_image)
  also have "snd ` set (enumerate 0 ?M) = set ?M"
    by (simp only: set_map [symmetric] map_snd_enumerate)
  finally have s1: "snd st1 = snd st \<union> (\<Union>row\<in>set ?M. row_sounds ?n row)" .
  from Cons.IH [OF r] show ?case unfolding s1 by auto
qed

lemma fit_languages_sounds:
  "fit_languages b st Ls = Inr st' \<Longrightarrow> snd st' = snd st \<union> (\<Union>L\<in>set Ls. seen_sounds b L)"
proof (induction Ls arbitrary: st)
  case Nil
  then show ?case by simp
next
  case (Cons L Ls)
  obtain pats S where st: "st = (pats, S)" by (cases st)
  from Cons.prems obtain st1 where
    a: "fit_alignments b L (pats L, S) (alignments b L) = Inr st1"
    unfolding st by (cases "fit_alignments b L (pats L, S) (alignments b L)") simp_all
  with Cons.prems have r: "fit_languages b (pats(L := fst st1), snd st1) Ls = Inr st'"
    unfolding st by simp
  from fit_alignments_sounds [OF a] have s1: "snd st1 = S \<union> seen_sounds b L"
    by (simp add: seen_sounds_def training_rows_def)
  from Cons.IH [OF r] show ?case unfolding st by (simp add: s1 Un_assoc)
qed

lemma seen_sounds_cong:
  "func b1 = func b2 \<Longrightarrow> languages b1 = languages b2 \<Longrightarrow> alignments b1 = alignments b2 \<Longrightarrow>
   seen_sounds b1 L = seen_sounds b2 L"
  by (simp add: seen_sounds_def training_rows_def)

lemma finite_all_seen_sounds: "finite (all_seen_sounds b)"
  by (simp add: all_seen_sounds_def seen_sounds_def row_sounds_def)

lemma fit_fields:
  assumes "fit b f = Inr b'"
  shows "languages b' = languages b" and "alignments b' = alignments b"
    and "gap b' = gap b" and "missing b' = missing b" and "func b' = f"
    and "sound2idx b' = make_sound2idx (all_seen_sounds b') (gap b') (missing b')"
    and "idx2sound b' = make_idx2sound (sound2idx b')"
proof -
  from assms obtain ps where
    a: "fit_languages (b\<lparr>func := f\<rparr>) (\<lambda>language. [], {}) (languages b) = Inr ps"
    unfolding fit_def
    by (cases "fit_languages (b\<lparr>func := f\<rparr>) (\<lambda>language. [], {}) (languages b)") simp_all
  let ?s2i = "make_sound2idx (snd ps) (gap b) (missing b)"
  from assms a obtain st where
    c: "fit_classifiers b ?s2i (fst ps) (\<lambda>language. [], \<lambda>language. [], classifiers b)
          (languages b) = Inr st"
    unfolding fit_def
    by (cases "fit_classifiers b ?s2i (fst ps) (\<lambda>language. [], \<lambda>language. [], classifiers b)
          (languages b)") simp_all
  from assms a c have b': "b' = b\<lparr>func := f, patterns := fst ps, sound2idx := ?s2i,
      idx2sound := make_idx2sound ?s2i, matrices := fst st, solutions := fst (snd st),
      classifiers := snd (snd st)\<rparr>"
    unfolding fit_def by simp
  show l: "languages b' = languages b" and al: "alignments b' = alignments b"
    and g: "gap b' = gap b" and m: "missing b' = missing b" and f: "func b' = f"
    unfolding b' by simp_all
  from fit_languages_sounds [OF a]
  have "snd ps = (\<Union>L\<in>set (languages b). seen_sounds (b\<lparr>func := f\<rparr>) L)" by simp
  also have "\<dots> = (\<Union>L\<in>set (languages b). seen_sounds b' L)"
  proof -
    have "seen_sounds (b\<lparr>func := f\<rparr>) L = seen_sounds b' L" for L
      by (rule seen_sounds_cong) (simp_all add: l al f)
    then show ?thesis by simp
  qed
  finally have s: "snd ps = all_seen_sounds b'" unfolding all_seen_sounds_def l .
  have "sound2idx b' = ?s2i" unfolding b' by simp
  then show c2: "sound2idx b' = make_sound2idx (all_seen_sounds b') (gap b') (missing b')"
    unfolding s g m .
  have "idx2sound b' = make_idx2sound ?s2i" unfolding b' by simp
  then show "idx2sound b' = make_idx2sound (sound2idx b')"
    unfolding c2 s g m .
qed

lemma getitem_map_of: "map_of d k = Some v \<Longrightarrow> getitem d k = Inr v"
  by (simp add: getitem_def)

lemma fit_vocabulary:
  assumes "fit b f = Inr b'"
  shows "vocabulary b' = all_seen_sounds b' \<union> {gap b', missing b'}"
proof -
  have "vocabulary b' = fst ` set (make_sound2idx (all_seen_sounds b') (gap b') (missing b'))"
    unfolding vocabulary_def by (simp only: fit_fields(6) [OF assms, symmetric])
  also have "\<dots> = all_seen_sounds b' \<union> {gap b', missing b'}"
    using finite_all_seen_sounds by (rule sound2idx_props(1))
  finally show ?thesis .
qed

lemma fit_roundtrip:
  assumes "fit b f = Inr b'" and s: "s \<in> vocabulary b'"
  shows "\<exists>c. getitem (sound2idx b') s = Inr c \<and> getitem (idx2sound b') c = Inr s"
proof -
  let ?d = "make_sound2idx (all_seen_sounds b') (gap b') (missing b')"
  have d: "sound2idx b' = ?d" by (rule fit_fields(6) [OF assms(1)])
  have i: "idx2sound b' = make_idx2sound ?d"
    using fit_fields(7) [OF assms(1)] by (simp only: d [symmetric])
  have dk: "distinct (map fst ?d)"
    using finite_all_seen_sounds by (rule sound2idx_props(2))
  have dv: "distinct (map snd ?d)"
    using finite_all_seen_sounds by (rule sound2idx_props(3))
  from s have "s \<in> fst ` set ?d" unfolding vocabulary_def d .
  from idx2sound_inverse [OF dk dv this] obtain c where
    m1: "map_of ?d s = Some c" and m2: "map_of (make_idx2sound ?d) c = Some s" by blast
  from m1 have "getitem (sound2idx b') s = Inr c"
    unfolding d by (rule getitem_map_of)
  moreover from m2 have "getitem (idx2sound b') c = Inr s"
    unfolding i by (rule getitem_map_of)
  ultimately show ?thesis by blast
qed

lemma seen_in_vocabulary:
  assumes "fit b f = Inr b'" and "L \<in> set (languages b')" and "s \<in> seen_sounds b' L"
  shows "s \<in> vocabulary b'"
proof -
  from assms(2,3) have "s \<in> all_seen_sounds b'" unfolding all_seen_sounds_def by blast
  then show ?thesis unfolding fit_vocabulary [OF assms(1)] by blast
qed

lemma fit_reserved_codes:
  assumes "fit b f = Inr b'"
  shows "getitem (sound2idx b') (missing b') = Inr 0"
    and "gap b \<noteq> missing b \<Longrightarrow> getitem (sound2idx b') (gap b') = Inr 1"
proof -
  let ?d = "make_sound2idx (all_seen_sounds b') (gap b') (missing b')"
  have d: "sound2idx b' = ?d" by (rule fit_fields(6) [OF assms(1)])
  have "map_of ?d (missing b') = Some 0"
    using finite_all_seen_sounds by (rule sound2idx_props(4))
  then show "getitem (sound2idx b') (missing b') = Inr 0"
    unfolding d by (rule getitem_map_of)
  assume "gap b \<noteq> missing b"
  then have "gap b' \<noteq> missing b'"
    by (simp only: fit_fields(3,4) [OF assms(1)] not_False_eq_True)
  with finite_all_seen_sounds have "map_of ?d (gap b') = Some 1"
    by (rule sound2idx_props(5))
  then show "getitem (sound2idx b') (gap b') = Inr 1"
    unfolding d by (rule getitem_map_of)
qed

lemma example_fits:
  "fit (example_baseline [''A'', ''B''] two_languages ''-'') (pad_align ''-'') =
   Inr (projr (fit (example_baseline [''A'', ''B''] two_languages ''-'') (pad_align ''-'')))"
proof -
  have "\<not> isl (fit (example_baseline [''A'', ''B''] two_languages ''-'') (pad_align ''-''))"
    by code_simp
  then show ?thesis by simp
qed

lemma example3_fits:
  "fit (example_baseline [''A'', ''B'', ''C''] three_languages ''-'') (pad_align ''-'') =
   Inr (projr (fit (example_baseline [''A'', ''B'', ''C''] three_languages ''-'') (pad_align ''-'')))"
proof -
  have "\<not> isl (fit (example_baseline [''A'', ''B'', ''C''] three_languages ''-'') (pad_align ''-''))"
    by code_simp
  then show ?thesis by simp
qed

text \<open>
  Claim C9. After \<open>fit\<close>, every symbol seen in the training data of any language is a key
  of \<open>sound2idx\<close>, and \<open>idx2sound\<close> maps its code back to it; the missing symbol has code
  0 and the gap symbol has code 1. The two reserved symbols are assumed to differ, as the
  defaults do: line 377 is executed after line 376, so a gap symbol that is also the
  missing symbol ends with code 0.
\<close>

theorem codec_roundtrip:
  assumes "fit b f = Inr b'" and "gap b \<noteq> missing b"
  shows "(\<forall>L\<in>set (languages b'). \<forall>s\<in>seen_sounds b' L.
            \<exists>c. getitem (sound2idx b') s = Inr c \<and> getitem (idx2sound b') c = Inr s) \<and>
         getitem (sound2idx b') (gap b') = Inr 1 \<and>
         getitem (sound2idx b') (missing b') = Inr 0"
proof (intro conjI ballI)
  fix L s assume "L \<in> set (languages b')" and "s \<in> seen_sounds b' L"
  with assms(1) have "s \<in> vocabulary b'" by (rule seen_in_vocabulary)
  with assms(1) show "\<exists>c. getitem (sound2idx b') s = Inr c \<and> getitem (idx2sound b') c = Inr s"
    by (rule fit_roundtrip)
next
  show "getitem (sound2idx b') (gap b') = Inr 1"
    using assms by (rule fit_reserved_codes(2))
next
  show "getitem (sound2idx b') (missing b') = Inr 0"
    using assms(1) by (rule fit_reserved_codes(1))
qed

theorem codec_roundtrip_witness:
  "fit (example_baseline [''A'', ''B''] two_languages ''-'') (pad_align ''-'') =
     Inr (projr (fit (example_baseline [''A'', ''B''] two_languages ''-'') (pad_align ''-''))) \<and>
   gap (example_baseline [''A'', ''B''] two_languages ''-'') \<noteq>
     missing (example_baseline [''A'', ''B''] two_languages ''-'') \<and>
   ''B'' \<in> set (languages (projr (fit (example_baseline [''A'', ''B''] two_languages ''-'') (pad_align ''-'')))) \<and>
   ''a'' \<in> seen_sounds (projr (fit (example_baseline [''A'', ''B''] two_languages ''-'') (pad_align ''-''))) ''B'' \<and>
   (\<exists>c. getitem (sound2idx (projr (fit (example_baseline [''A'', ''B''] two_languages ''-'') (pad_align ''-'')))) ''a'' = Inr c \<and>
        getitem (idx2sound (projr (fit (example_baseline [''A'', ''B''] two_languages ''-'') (pad_align ''-'')))) c = Inr ''a'') \<and>
   getitem (sound2idx (projr (fit (example_baseline [''A'', ''B''] two_languages ''-'') (pad_align ''-'')))) ''-'' = Inr 1"
proof -
  let ?b = "example_baseline [''A'', ''B''] two_languages ''-''"
  let ?b' = "projr (fit ?b (pad_align ''-''))"
  have h1: "fit ?b (pad_align ''-'') = Inr ?b'" by (rule example_fits)
  have h2: "gap ?b \<noteq> missing ?b" by (simp add: example_baseline_def)
  have l: "''B'' \<in> set (languages ?b')" by code_simp
  have s: "''a'' \<in> seen_sounds ?b' ''B''" by code_simp
  have g: "gap ?b' = ''-''" by code_simp
  from codec_roundtrip [OF h1 h2] l s g
  have "\<exists>c. getitem (sound2idx ?b') ''a'' = Inr c \<and> getitem (idx2sound ?b') c = Inr ''a''"
    and "getitem (sound2idx ?b') ''-'' = Inr 1"
    by metis+
  with h1 h2 l s show ?thesis by (intro conjI)
qed




lemma predict_hyphen_free: "predict b langs alms target unknown = Inr out \<Longrightarrow> ''-'' \<notin> set out"
  by (auto simp: predict_def split: if_splits)

lemma row_pattern_whole_row:
  assumes "length row = n" and "0 < n"
  shows "row_pattern n row = row" and "py_index row (int n - 1) = Inr (last row)"
proof -
  show "row_pattern n row = row" using assms(1) by (simp add: row_pattern_def)
  from assms have ne: "row \<noteq> []" by auto
  from assms have "0 \<le> int n - 1" and "int n - 1 < int (length row)"
    and "nat (int n - 1) = length row - 1" by simp_all
  then have "py_index row (int n - 1) = Inr (row ! (length row - 1))"
    by (simp add: py_index_def)
  with ne show "py_index row (int n - 1) = Inr (last row)" by (simp add: last_conv_nth)
qed

lemma encode_seen:
  assumes "s \<in> vocabulary b"
  shows "getitem (sound2idx b) s = Inr (encode b s)"
proof -
  from assms have "map_of (sound2idx b) s \<noteq> None"
    unfolding vocabulary_def by (simp only: map_of_eq_None_iff not_not)
  then obtain c where "map_of (sound2idx b) s = Some c" by blast
  then show ?thesis by (simp add: getitem_def encode_def)
qed




text \<open>
  Claim C1 at two languages and one cognate set (\<open>A = a\<close>, \<open>B = b\<close>). The aligned matrix
  for target \<open>B\<close> has the one row \<open>a b\<close>, with the target in the last cell. The claim asks
  for the context \<open>a\<close>, of width 1, and the label \<open>b\<close>. The context that \<open>fit\<close> stores
  and encodes is the whole row \<open>a b\<close>, of width 2, with the label in it; the context that
  \<open>predict\<close> hands to the classifier for the same target has width 1.
\<close>

theorem fit_context_contains_label:
  "(case fit (example_baseline [''A'', ''B''] two_languages ''-'') (pad_align ''-'') of
      Inl e \<Rightarrow> False
    | Inr b' \<Rightarrow>
        training_rows b' ''B'' = [[''a'', ''b'']] \<and>
        patterns b' ''B'' = [([''a'', ''b''], [(''b'', [(''c1'', 0)])])] \<and>
        matrices b' ''B'' = [[2, 3]] \<and>
        solutions b' ''B'' = [3] \<and>
        predict_matrix b' [''A''] [[''a'']] ''B'' = [[2]])"
  by code_simp

text \<open>
  Claim C5 at an object configured with the gap symbol \<open>+\<close> (two languages, one cognate
  set with \<open>A = a x\<close> and \<open>B = b\<close>, aligned with that gap symbol, so that the second label
  of \<open>B\<close> is the gap). The claim says that the output has no gap symbol; \<open>predict\<close>
  removes the literal \<open>-\<close> only and returns the configured gap symbol twice.
\<close>

theorem predict_keeps_configured_gap:
  "(case fit (example_baseline [''A'', ''B''] shorter_target ''+'') (pad_align ''+'') of
      Inl e \<Rightarrow> False
    | Inr b' \<Rightarrow>
        gap b' = ''+'' \<and>
        solutions b' ''B'' = [4, 1] \<and>
        predict b' [''A''] [[''a'', ''x'']] ''B'' ''?'' = Inr [''+'', ''+''])"
  by code_simp

subsection \<open>The encoded examples\<close>

lemma getitem_lookup:
  "getitem d k = Inr v \<Longrightarrow> (case map_of d k of None \<Rightarrow> 0 | Some c \<Rightarrow> c) = v"
  by (simp add: getitem_def split: option.splits)

lemma encode_pattern_map:
  "encode_pattern s2i p = Inr row \<Longrightarrow>
   row = map (\<lambda>s. case map_of s2i s of None \<Rightarrow> 0 | Some c \<Rightarrow> c) p"
proof (induction p arbitrary: row)
  case Nil
  then show ?case by simp
next
  case (Cons s p)
  from Cons.prems obtain c where c: "getitem s2i s = Inr c"
    by (cases "getitem s2i s") simp_all
  from Cons.prems c obtain cs where cs: "encode_pattern s2i p = Inr cs"
    by (cases "encode_pattern s2i p") simp_all
  from Cons.prems c cs have r: "row = c # cs" by simp
  from Cons.IH [OF cs] getitem_lookup [OF c] show ?case unfolding r by simp
qed

lemma fit_labels_eq:
  "fit_labels s2i p (mat, sol) svs = Inr st \<Longrightarrow>
   st = (mat @ concat (map (\<lambda>sv. replicate (length (snd sv))
                                 (map (\<lambda>s. case map_of s2i s of None \<Rightarrow> 0 | Some c \<Rightarrow> c) p)) svs),
         sol @ concat (map (\<lambda>sv. replicate (length (snd sv))
                                 (case map_of s2i (fst sv) of None \<Rightarrow> 0 | Some c \<Rightarrow> c)) svs))"
proof (induction svs arbitrary: mat sol)
  case Nil
  then show ?case by simp
next
  case (Cons sv svs)
  from Cons.prems obtain t where t: "getitem s2i (fst sv) = Inr t"
    by (cases "getitem s2i (fst sv)") simp_all
  from Cons.prems t obtain row where row: "encode_pattern s2i p = Inr row"
    by (cases "encode_pattern s2i p") simp_all
  from Cons.prems t row
  have "fit_labels s2i p (mat @ replicate (length (snd sv)) row,
          sol @ replicate (length (snd sv)) t) svs = Inr st"
    by simp
  from Cons.IH [OF this] encode_pattern_map [OF row] getitem_lookup [OF t]
  show ?case by simp
qed

lemma fit_patterns_eq:
  "fit_patterns s2i st pats = Inr st' \<Longrightarrow>
   st' = (fst st @ pattern_rows (\<lambda>s. case map_of s2i s of None \<Rightarrow> 0 | Some c \<Rightarrow> c) pats,
          snd st @ pattern_targets (\<lambda>s. case map_of s2i s of None \<Rightarrow> 0 | Some c \<Rightarrow> c) pats)"
proof (induction pats arbitrary: st)
  case Nil
  then show ?case by (simp add: pattern_rows_def pattern_targets_def)
next
  case (Cons ps pats)
  from Cons.prems obtain st1 where a: "fit_labels s2i (fst ps) st (snd ps) = Inr st1"
    by (cases "fit_labels s2i (fst ps) st (snd ps)") simp_all
  with Cons.prems have r: "fit_patterns s2i st1 pats = Inr st'" by simp
  from a have "fit_labels s2i (fst ps) (fst st, snd st) (snd ps) = Inr st1" by simp
  from fit_labels_eq [OF this] Cons.IH [OF r]
  show ?case by (simp add: pattern_rows_def pattern_targets_def)
qed

lemma fit_classifiers_eq:
  "fit_classifiers b s2i pats (mats, sols, clfs) Ls = Inr st \<Longrightarrow>
   fst st L = mats L @ concat (replicate (count_list Ls L)
       (pattern_rows (\<lambda>s. case map_of s2i s of None \<Rightarrow> 0 | Some c \<Rightarrow> c) (pats L))) \<and>
   fst (snd st) L = sols L @ concat (replicate (count_list Ls L)
       (pattern_targets (\<lambda>s. case map_of s2i s of None \<Rightarrow> 0 | Some c \<Rightarrow> c) (pats L)))"
proof (induction Ls arbitrary: mats sols clfs)
  case Nil
  then show ?case by auto
next
  case (Cons L0 Ls)
  let ?lk = "\<lambda>s. case map_of s2i s of None \<Rightarrow> 0 | Some c \<Rightarrow> c"
  from Cons.prems obtain ms where a: "fit_patterns s2i (mats L0, sols L0) (pats L0) = Inr ms"
    by (cases "fit_patterns s2i (mats L0, sols L0) (pats L0)") simp_all
  with Cons.prems have r: "fit_classifiers b s2i pats
      (mats(L0 := fst ms), sols(L0 := snd ms), clfs(L0 := learner b (fst ms) (snd ms))) Ls = Inr st"
    by simp
  from fit_patterns_eq [OF a]
  have ms: "fst ms = mats L0 @ pattern_rows ?lk (pats L0)"
       "snd ms = sols L0 @ pattern_targets ?lk (pats L0)"
    by simp_all
  from Cons.IH [OF r] show ?case
    by (cases "L = L0") (simp_all add: ms)
qed

lemma encode_eq: "encode b = (\<lambda>s. case map_of (sound2idx b) s of None \<Rightarrow> 0 | Some c \<Rightarrow> c)"
  by (simp add: encode_def fun_eq_iff)

lemma fit_examples:
  assumes "fit b f = Inr b'"
  shows "matrices b' L =
           concat (replicate (count_list (languages b') L)
             (pattern_rows (encode b') (patterns b' L)))"
    and "solutions b' L =
           concat (replicate (count_list (languages b') L)
             (pattern_targets (encode b') (patterns b' L)))"
proof -
  from assms obtain ps where
    a: "fit_languages (b\<lparr>func := f\<rparr>) (\<lambda>language. [], {}) (languages b) = Inr ps"
    unfolding fit_def
    by (cases "fit_languages (b\<lparr>func := f\<rparr>) (\<lambda>language. [], {}) (languages b)") simp_all
  let ?s2i = "make_sound2idx (snd ps) (gap b) (missing b)"
  from assms a obtain st where
    c: "fit_classifiers b ?s2i (fst ps) (\<lambda>language. [], \<lambda>language. [], classifiers b)
          (languages b) = Inr st"
    unfolding fit_def
    by (cases "fit_classifiers b ?s2i (fst ps) (\<lambda>language. [], \<lambda>language. [], classifiers b)
          (languages b)") simp_all
  from assms a c have b': "b' = b\<lparr>func := f, patterns := fst ps, sound2idx := ?s2i,
      idx2sound := make_idx2sound ?s2i, matrices := fst st, solutions := fst (snd st),
      classifiers := snd (snd st)\<rparr>"
    unfolding fit_def by simp
  have e: "encode b' = (\<lambda>s. case map_of ?s2i s of None \<Rightarrow> 0 | Some c \<Rightarrow> c)"
    unfolding encode_eq b' by simp
  have f: "matrices b' = fst st" "solutions b' = fst (snd st)" "patterns b' = fst ps"
    "languages b' = languages b"
    unfolding b' by simp_all
  from fit_classifiers_eq [OF c, of L]
  show "matrices b' L =
           concat (replicate (count_list (languages b') L)
             (pattern_rows (encode b') (patterns b' L)))"
    and "solutions b' L =
           concat (replicate (count_list (languages b') L)
             (pattern_targets (encode b') (patterns b' L)))"
    unfolding e f by simp_all
qed

lemma sound2idx_code:
  assumes fin: "finite S" and i: "i < card S"
    and g: "sorted_list_of_set S ! i \<noteq> g" and m: "sorted_list_of_set S ! i \<noteq> m"
  shows "map_of (make_sound2idx S g m) (sorted_list_of_set S ! i) = Some (int i + 2)"
proof -
  let ?ks = "sorted_list_of_set S" and ?vs = "map int [2..<card S + 2]"
  have lk: "length ?ks = card S" by simp
  have lv: "length ?vs = card S"
    by (simp only: length_map length_upt add_diff_cancel_right')
  have l: "length ?ks = length ?vs" unfolding lk lv ..
  have d: "distinct ?ks" by simp
  from i have iv: "i < length ?vs" unfolding lv .
  have "map_of (zip ?ks ?vs) (?ks ! i) = Some (?vs ! i)"
    using l d iv by (rule map_of_zip_nth)
  moreover have "?vs ! i = int i + 2"
  proof -
    from i have "i < length [2..<card S + 2]"
      by (simp only: length_upt add_diff_cancel_right')
    then have "?vs ! i = int ([2..<card S + 2] ! i)" by (rule nth_map)
    also from i have "[2..<card S + 2] ! i = 2 + i"
      by (intro nth_upt) arith
    finally show ?thesis by (simp only: of_nat_add of_nat_numeral add.commute)
  qed
  ultimately have z: "map_of (zip ?ks ?vs) (?ks ! i) = Some (int i + 2)" by simp
  have "make_sound2idx S g m = setitem (setitem (zip ?ks ?vs) g 1) m 0"
    by (simp only: make_sound2idx_def codec_base(1) [OF fin])
  then have "map_of (make_sound2idx S g m) (?ks ! i) =
             (((map_of (zip ?ks ?vs))(g \<mapsto> 1))(m \<mapsto> 0)) (?ks ! i)"
    by (simp only: map_of_setitem)
  also have "\<dots> = map_of (zip ?ks ?vs) (?ks ! i)"
    using g m by simp
  finally show ?thesis unfolding z .
qed

text \<open>
  Claim C2, as the specification states it, at three languages and two cognate sets (\<open>A\<close>
  and \<open>B\<close> share one, \<open>A\<close> and \<open>C\<close> the other): the symbol \<open>b\<close> is never seen in the
  training data of \<open>C\<close> and is neither the gap nor the missing symbol, yet it is a key of
  the codec that encodes the examples of \<open>C\<close>.
\<close>

theorem codec_not_per_language:
  "(case fit (example_baseline [''A'', ''B'', ''C''] three_languages ''-'') (pad_align ''-'') of
      Inl e \<Rightarrow> False
    | Inr b' \<Rightarrow>
        ''C'' \<in> set (languages b') \<and>
        ''b'' \<in> vocabulary b' \<and>
        ''b'' \<notin> seen_sounds b' ''C'' \<union> {gap b', missing b'} \<and>
        getitem (sound2idx b') ''b'' = Inr 3 \<and>
        matrices b' ''C'' = [[2, 0, 4]])"
  by code_simp

text \<open>
  Claim C2, amended. \<open>fit\<close> builds one codec for the whole object. Its keys are exactly
  the symbols seen in the training data of all languages, the gap symbol and the missing
  symbol. A seen symbol that is neither of the two reserved symbols has the code 2 plus
  its position among all seen symbols in sorted order; the missing symbol has the code 0;
  the gap symbol has the code 1, unless it is the missing symbol. \<open>idx2sound\<close> maps the
  code of every key back to the key. For every language, the matrix and the solutions are
  the contexts and the labels of its patterns under this codec, one copy per recorded
  occurrence (and once for every time the language is listed). \<open>predict\<close> encodes with
  the same codec whatever the target language is.
\<close>

theorem codec_shared:
  assumes "fit b f = Inr b'"
  shows "vocabulary b' = all_seen_sounds b' \<union> {gap b', missing b'} \<and>
         sound2idx b' = make_sound2idx (all_seen_sounds b') (gap b') (missing b') \<and>
         idx2sound b' = make_idx2sound (sound2idx b') \<and>
         predict_matrix b' langs alms target =
           map (map (encode b')) (f alms langs (filter (\<lambda>l. l \<noteq> target) (languages b)) False) \<and>
         (\<forall>i. i < card (all_seen_sounds b') \<and>
              sorted_list_of_set (all_seen_sounds b') ! i \<noteq> gap b' \<and>
              sorted_list_of_set (all_seen_sounds b') ! i \<noteq> missing b' \<longrightarrow>
              getitem (sound2idx b') (sorted_list_of_set (all_seen_sounds b') ! i) =
                Inr (int i + 2)) \<and>
         getitem (sound2idx b') (missing b') = Inr 0 \<and>
         (gap b' \<noteq> missing b' \<longrightarrow> getitem (sound2idx b') (gap b') = Inr 1) \<and>
         (\<forall>s. s \<in> vocabulary b' \<longrightarrow>
              getitem (sound2idx b') s = Inr (encode b' s) \<and>
              getitem (idx2sound b') (encode b' s) = Inr s) \<and>
         (\<forall>L. matrices b' L =
                concat (replicate (count_list (languages b') L)
                  (pattern_rows (encode b') (patterns b' L))) \<and>
              solutions b' L =
                concat (replicate (count_list (languages b') L)
                  (pattern_targets (encode b') (patterns b' L))))"
proof (intro conjI allI impI)
  let ?S = "all_seen_sounds b'"
  have d: "sound2idx b' = make_sound2idx ?S (gap b') (missing b')"
    using assms by (rule fit_fields(6))
  show "vocabulary b' = ?S \<union> {gap b', missing b'}"
    using assms by (rule fit_vocabulary)
  show "sound2idx b' = make_sound2idx ?S (gap b') (missing b')" by (rule d)
  show "idx2sound b' = make_idx2sound (sound2idx b')"
    using assms by (rule fit_fields(7))
  show "predict_matrix b' langs alms target =
           map (map (encode b')) (f alms langs (filter (\<lambda>l. l \<noteq> target) (languages b)) False)"
    unfolding predict_matrix_def
    by (simp only: fit_fields(1) [OF assms] fit_fields(5) [OF assms])
  show "getitem (sound2idx b') (missing b') = Inr 0"
    using assms by (rule fit_reserved_codes(1))
  {
    assume "gap b' \<noteq> missing b'"
    with finite_all_seen_sounds have "map_of (make_sound2idx ?S (gap b') (missing b')) (gap b') = Some 1"
      by (rule sound2idx_props(5))
    then show "getitem (sound2idx b') (gap b') = Inr 1"
      unfolding d by (rule getitem_map_of)
  }
  {
    fix i
    assume h: "i < card ?S \<and> sorted_list_of_set ?S ! i \<noteq> gap b' \<and>
               sorted_list_of_set ?S ! i \<noteq> missing b'"
    then have "i < card ?S" and "sorted_list_of_set ?S ! i \<noteq> gap b'"
      and "sorted_list_of_set ?S ! i \<noteq> missing b'" by blast+
    with finite_all_seen_sounds
    have "map_of (make_sound2idx ?S (gap b') (missing b')) (sorted_list_of_set ?S ! i) =
            Some (int i + 2)"
      by (rule sound2idx_code)
    then show "getitem (sound2idx b') (sorted_list_of_set ?S ! i) = Inr (int i + 2)"
      unfolding d by (rule getitem_map_of)
  }
  {
    fix s assume s: "s \<in> vocabulary b'"
    then show e: "getitem (sound2idx b') s = Inr (encode b' s)" by (rule encode_seen)
    from fit_roundtrip [OF assms s] obtain c where
      "getitem (sound2idx b') s = Inr c" and c: "getitem (idx2sound b') c = Inr s" by blast
    with e have "c = encode b' s" by simp
    with c show "getitem (idx2sound b') (encode b' s) = Inr s" by simp
  }
  {
    fix L
    show "matrices b' L =
            concat (replicate (count_list (languages b') L)
              (pattern_rows (encode b') (patterns b' L)))"
      using assms by (rule fit_examples(1))
    show "solutions b' L =
            concat (replicate (count_list (languages b') L)
              (pattern_targets (encode b') (patterns b' L)))"
      using assms by (rule fit_examples(2))
  }
qed

theorem codec_shared_witness:
  "fit (example_baseline [''A'', ''B'', ''C''] three_languages ''-'') (pad_align ''-'') =
     Inr (projr (fit (example_baseline [''A'', ''B'', ''C''] three_languages ''-'') (pad_align ''-''))) \<and>
   all_seen_sounds (projr (fit (example_baseline [''A'', ''B'', ''C''] three_languages ''-'') (pad_align ''-'')))
     = {''a'', ''b'', ''c'', [CHR 0xC3, CHR 0x98]} \<and>
   vocabulary (projr (fit (example_baseline [''A'', ''B'', ''C''] three_languages ''-'') (pad_align ''-'')))
     = {''a'', ''b'', ''c'', [CHR 0xC3, CHR 0x98], ''-''} \<and>
   patterns (projr (fit (example_baseline [''A'', ''B'', ''C''] three_languages ''-'') (pad_align ''-''))) ''C''
     = [([''a'', [CHR 0xC3, CHR 0x98], ''c''], [(''c'', [(''c2'', 0)])])] \<and>
   matrices (projr (fit (example_baseline [''A'', ''B'', ''C''] three_languages ''-'') (pad_align ''-''))) ''C''
     = [[2, 0, 4]]"
proof -
  let ?b = "example_baseline [''A'', ''B'', ''C''] three_languages ''-''"
  let ?b' = "projr (fit ?b (pad_align ''-''))"
  have h1: "fit ?b (pad_align ''-'') = Inr ?b'" by (rule example3_fits)
  have a: "all_seen_sounds ?b' = {''a'', ''b'', ''c'', [CHR 0xC3, CHR 0x98]}" by code_simp
  have g: "gap ?b' = ''-''" and m: "missing ?b' = [CHR 0xC3, CHR 0x98]" by code_simp+
  have p: "patterns ?b' ''C'' = [([''a'', [CHR 0xC3, CHR 0x98], ''c''], [(''c'', [(''c2'', 0)])])]"
    by code_simp
  have c: "count_list (languages ?b') ''C'' = 1" by code_simp
  have e: "map (encode ?b') [''a'', [CHR 0xC3, CHR 0x98], ''c''] = [2, 0, 4]" by code_simp
  note t = codec_shared [OF h1, of "[]" "[]" "''C''"]
  from t have "vocabulary ?b' = all_seen_sounds ?b' \<union> {gap ?b', missing ?b'}"
    by (rule conjunct1)
  then have "vocabulary ?b' = {''a'', ''b'', ''c'', [CHR 0xC3, CHR 0x98]} \<union> {''-'', [CHR 0xC3, CHR 0x98]}"
    unfolding a g m .
  then have v: "vocabulary ?b' = {''a'', ''b'', ''c'', [CHR 0xC3, CHR 0x98], ''-''}"
    by (simp only: Un_insert_right Un_empty_right insert_absorb2 insert_commute)
  from t have "matrices ?b' ''C'' =
      concat (replicate (count_list (languages ?b') ''C'')
        (pattern_rows (encode ?b') (patterns ?b' ''C'')))"
    by blast
  then have "matrices ?b' ''C'' =
      concat (replicate 1
        (pattern_rows (encode ?b') [([''a'', [CHR 0xC3, CHR 0x98], ''c''], [(''c'', [(''c2'', 0)])])]))"
    unfolding c p .
  then have x: "matrices ?b' ''C'' = [[2, 0, 4]]"
    using e by (simp add: pattern_rows_def)
  from h1 a v p x show ?thesis by (intro conjI)
qed

end
